theory Spec2Isabelle
  imports Complex_Main
begin

section \<open>Python and numpy primitives used by \<open>hgdecode/classes.py\<close>\<close>

text \<open>
  The exceptions that the modelled statements can raise. Python's unbounded integers are
  \<open>int\<close>; lengths and shapes are \<open>nat\<close>. The true division \<open>a / b\<close> of two integers is
  taken exactly (over the reals), so \<open>ceil\<close> and \<open>floor\<close> of a quotient are the
  mathematical ones.
\<close>

datatype error = ZeroDivisionError | ValueError | IndexError | AssertionError

text \<open>
  A three-dimensional numpy array of shape \<open>(length (trials X), chans X, samps X)\<close> and a
  two-dimensional one of shape \<open>(length (rows A), cols A)\<close>. The inner extents are stored
  because an array with no entry along an outer axis still has them.
\<close>

record 'a arr3 =
  chans :: nat
  samps :: nat
  trials :: "'a list list list"

record 'a arr2 =
  cols :: nat
  rows :: "'a list list"

definition wf2 :: "'a arr2 \<Rightarrow> bool" where
  "wf2 A = (\<forall>r \<in> set (rows A). length r = cols A)"

definition wf3 :: "'a arr3 \<Rightarrow> bool" where
  "wf3 X = (\<forall>t \<in> set (trials X). length t = chans X \<and> (\<forall>r \<in> set t. length r = samps X))"

text \<open>Python's normalisation of a slice bound against a length, and \<open>xs[a:b]\<close>, \<open>xs[a:]\<close>.\<close>

definition slice_idx :: "int \<Rightarrow> nat \<Rightarrow> nat" where
  "slice_idx i n = (if i < 0 then nat (max (i + int n) 0) else min (nat i) n)"

definition py_slice :: "'a list \<Rightarrow> int \<Rightarrow> int \<Rightarrow> 'a list" where
  "py_slice xs a b =
     (let lo = slice_idx a (length xs); hi = slice_idx b (length xs)
      in take (hi - lo) (drop lo xs))"

definition py_slice_from :: "'a list \<Rightarrow> int \<Rightarrow> 'a list" where
  "py_slice_from xs a = drop (slice_idx a (length xs)) xs"

text \<open>
  numpy's assignment broadcasting: a source extent fits a destination extent when they
  are equal or the source extent is 1, and an axis of extent 1 is then repeated.
\<close>

definition bc_ok :: "nat \<Rightarrow> nat \<Rightarrow> bool" where
  "bc_ok s d = (s = d \<or> s = 1)"

definition expand :: "nat \<Rightarrow> 'a list \<Rightarrow> 'a list" where
  "expand k xs = (if length xs = k then xs else replicate k (hd xs))"

text \<open>\<open>zeros((n, h, w))\<close>: a negative extent raises ValueError.\<close>

definition zeros3 :: "int \<Rightarrow> nat \<Rightarrow> int \<Rightarrow> error + ('a::zero) arr3" where
  "zeros3 n h w =
     (if n < 0 \<or> w < 0 then Inl ValueError
      else Inr \<lparr>chans = h, samps = nat w,
                trials = replicate (nat n) (replicate h (replicate (nat w) 0))\<rparr>)"

text \<open>\<open>X[i, ...]\<close> for a natural index \<open>i\<close>, and \<open>X[:, a:b]\<close>.\<close>

definition trial_at :: "'a arr3 \<Rightarrow> nat \<Rightarrow> error + 'a arr2" where
  "trial_at X i =
     (if i < length (trials X) then Inr \<lparr>cols = samps X, rows = trials X ! i\<rparr>
      else Inl IndexError)"

definition slice_cols :: "'a arr2 \<Rightarrow> int \<Rightarrow> int \<Rightarrow> 'a arr2" where
  "slice_cols A a b =
     \<lparr>cols = slice_idx b (cols A) - slice_idx a (cols A),
      rows = map (\<lambda>r. py_slice r a b) (rows A)\<rparr>"

text \<open>\<open>D[i, ...] = A\<close> and \<open>D[a:b, ...] = S\<close>.\<close>

definition assign_at :: "'a arr3 \<Rightarrow> nat \<Rightarrow> 'a arr2 \<Rightarrow> error + 'a arr3" where
  "assign_at D i A =
     (if \<not> i < length (trials D) then Inl IndexError
      else if bc_ok (length (rows A)) (chans D) \<and> bc_ok (cols A) (samps D)
      then Inr (D\<lparr>trials := (trials D)[i := expand (chans D) (map (expand (samps D)) (rows A))]\<rparr>)
      else Inl ValueError)"

definition assign_slice3 :: "'a arr3 \<Rightarrow> int \<Rightarrow> int \<Rightarrow> 'a arr3 \<Rightarrow> error + 'a arr3" where
  "assign_slice3 D a b S =
     (let lo = slice_idx a (length (trials D));
          k = slice_idx b (length (trials D)) - lo
      in if bc_ok (length (trials S)) k \<and> bc_ok (chans S) (chans D) \<and> bc_ok (samps S) (samps D)
         then Inr (D\<lparr>trials := take lo (trials D)
                      @ expand k (map (\<lambda>t. expand (chans D) (map (expand (samps D)) t)) (trials S))
                      @ drop (lo + k) (trials D)\<rparr>)
         else Inl ValueError)"

definition assign_slice1 :: "'a list \<Rightarrow> int \<Rightarrow> int \<Rightarrow> 'a list \<Rightarrow> error + 'a list" where
  "assign_slice1 D a b S =
     (let lo = slice_idx a (length D); k = slice_idx b (length D) - lo
      in if bc_ok (length S) k then Inr (take lo D @ expand k S @ drop (lo + k) D)
         else Inl ValueError)"

section \<open>EEGDataset: cropping\<close>

text \<open>
  The crop count \<open>int(ceil((w - crop_sample_size + 1) / crop_step))\<close>, written out in
  \<open>crop_X_y\<close> and in \<open>EEGDataGenerator.__init__\<close>. Dividing by a zero step raises.
\<close>

definition n_crops_of :: "nat \<Rightarrow> int \<Rightarrow> int \<Rightarrow> error + int" where
  "n_crops_of w crop_size step =
     (if step = 0 then Inl ZeroDivisionError
      else Inr \<lceil>real_of_int (int w - crop_size + 1) / real_of_int step\<rceil>)"

text \<open>
  \<open>crop_X\<close>: the result is pre-allocated with \<open>zeros\<close> and window \<open>i\<close> is filled with
  \<open>X[:, init:stop]\<close>, both bounds moving by the step.
\<close>

function crop_X_loop ::
  "'a arr2 \<Rightarrow> int \<Rightarrow> nat \<Rightarrow> nat \<Rightarrow> 'a arr3 \<Rightarrow> int \<Rightarrow> int \<Rightarrow> error + 'a arr3" where
  "crop_X_loop A step n i new_X init stop =
     (if i < n then
        (case assign_at new_X i (slice_cols A init stop) of
           Inl e \<Rightarrow> Inl e
         | Inr new_X' \<Rightarrow> crop_X_loop A step n (Suc i) new_X' (init + step) (stop + step))
      else Inr new_X)"
  by pat_completeness auto
termination
  by (relation "measure (\<lambda>(A, step, n, i, new_X, init, stop). n - i)") auto

definition crop_X :: "('a::zero) arr2 \<Rightarrow> int \<Rightarrow> int \<Rightarrow> int \<Rightarrow> error + 'a arr3" where
  "crop_X A n crop_size step =
     (case zeros3 n (length (rows A)) crop_size of
        Inl e \<Rightarrow> Inl e
      | Inr new_X \<Rightarrow> crop_X_loop A step (nat n) 0 new_X 0 crop_size)"

text \<open>\<open>crop_y\<close> is \<open>repeat(y, n_crops)\<close>; a negative count raises.\<close>

definition crop_y :: "'l \<Rightarrow> int \<Rightarrow> error + 'l list" where
  "crop_y l n = (if n < 0 then Inl ValueError else Inr (replicate (nat n) l))"

definition label_at :: "'l list \<Rightarrow> nat \<Rightarrow> error + 'l" where
  "label_at ys i = (if i < length ys then Inr (ys ! i) else Inl IndexError)"

function crop_X_y_loop ::
  "('a::zero) arr3 \<Rightarrow> 'l list \<Rightarrow> int \<Rightarrow> int \<Rightarrow> int \<Rightarrow> nat \<Rightarrow> 'a arr3 \<Rightarrow> 'l list \<Rightarrow> int \<Rightarrow> int
     \<Rightarrow> error + ('a arr3 \<times> 'l list)" where
  "crop_X_y_loop X ys n crop_size step i new_X new_y init stop =
     (if i < length (trials X) then
        (case trial_at X i of Inl e \<Rightarrow> Inl e | Inr A \<Rightarrow>
        (case crop_X A n crop_size step of Inl e \<Rightarrow> Inl e | Inr C \<Rightarrow>
        (case assign_slice3 new_X init stop C of Inl e \<Rightarrow> Inl e | Inr new_X' \<Rightarrow>
        (case label_at ys i of Inl e \<Rightarrow> Inl e | Inr l \<Rightarrow>
        (case crop_y l n of Inl e \<Rightarrow> Inl e | Inr ls \<Rightarrow>
        (case assign_slice1 new_y init stop ls of Inl e \<Rightarrow> Inl e | Inr new_y' \<Rightarrow>
           crop_X_y_loop X ys n crop_size step (Suc i) new_X' new_y' (init + n) (stop + n)))))))
      else Inr (new_X, new_y))"
  by pat_completeness auto
termination
  by (relation "measure (\<lambda>(X, ys, n, crop_size, step, i, new_X, new_y, init, stop).
                   length (trials X) - i)") auto

definition crop_X_y ::
  "('a::zero) arr3 \<Rightarrow> ('l::zero) list \<Rightarrow> int \<Rightarrow> int \<Rightarrow> error + ('a arr3 \<times> 'l list)" where
  "crop_X_y X ys crop_size step =
     (case n_crops_of (samps X) crop_size step of Inl e \<Rightarrow> Inl e | Inr n \<Rightarrow>
     (case zeros3 (n * int (length (trials X))) (chans X) crop_size of Inl e \<Rightarrow> Inl e
      | Inr new_X \<Rightarrow>
        crop_X_y_loop X ys n crop_size step 0 new_X
          (replicate (nat (n * int (length (trials X)))) 0) 0 (0 + n)))"

text \<open>
  The window at index \<open>i\<close> of one trial (a list of channel rows) and the list of the
  first \<open>n\<close> windows, as plain list functions. They are used to state what the loops
  above compute.
\<close>

definition window :: "'a list list \<Rightarrow> nat \<Rightarrow> nat \<Rightarrow> nat \<Rightarrow> 'a list list" where
  "window t W S i = map (\<lambda>r. take W (drop (i * S) r)) t"

definition windows :: "'a list list \<Rightarrow> nat \<Rightarrow> nat \<Rightarrow> nat \<Rightarrow> 'a list list list" where
  "windows t n W S = map (window t W S) [0..<n]"

text \<open>The crop count of a valid geometry as a natural number: \<open>(L - W) div S + 1\<close>.\<close>

definition crops_of :: "nat \<Rightarrow> int \<Rightarrow> int \<Rightarrow> nat" where
  "crops_of L W S = nat ((int L - W) div S + 1)"

section \<open>EEGDataset: construction, temporal split, bulk cropping, label encoding\<close>

text \<open>
  The six arrays of an \<open>EEGDataset\<close>. The label fields have type \<open>'y\<close>: integer label
  vectors (\<open>int list\<close>) until \<open>to_categorical\<close> replaces them by encoded arrays.
\<close>

record ('a, 'y) EEGDataset =
  X_train :: "'a arr3"
  y_train :: 'y
  X_valid :: "'a arr3"
  y_valid :: 'y
  X_test :: "'a arr3"
  y_test :: 'y

text \<open>\<open>EEGDataset.__init__\<close>: the three assertions on the lengths, then the fields.\<close>

definition EEGDataset_init ::
  "'a arr3 \<Rightarrow> int list \<Rightarrow> 'a arr3 \<Rightarrow> int list \<Rightarrow> 'a arr3 \<Rightarrow> int list
     \<Rightarrow> error + ('a, int list) EEGDataset" where
  "EEGDataset_init tr_x tr_y va_x va_y te_x te_y =
     (if length (trials tr_x) \<noteq> length tr_y then Inl AssertionError
      else if length (trials va_x) \<noteq> length va_y then Inl AssertionError
      else if length (trials te_x) \<noteq> length te_y then Inl AssertionError
      else Inr \<lparr>X_train = tr_x, y_train = tr_y, X_valid = va_x, y_valid = va_y,
                X_test = te_x, y_test = te_y\<rparr>)"

text \<open>
  \<open>arange(a, b)\<close> and indexing with an integer index array (\<open>xs[idx]\<close>, \<open>X[idx, ...]\<close>):
  a negative index counts from the end, an index outside \<open>[-n, n)\<close> raises IndexError.
\<close>

definition arange :: "int \<Rightarrow> int \<Rightarrow> int list" where
  "arange a b = [a..b - 1]"

definition fancy :: "'a list \<Rightarrow> int list \<Rightarrow> error + 'a list" where
  "fancy xs idx =
     (if \<forall>i \<in> set idx. - int (length xs) \<le> i \<and> i < int (length xs)
      then Inr (map (\<lambda>i. xs ! nat (if i < 0 then i + int (length xs) else i)) idx)
      else Inl IndexError)"

definition fancy3 :: "'a arr3 \<Rightarrow> int list \<Rightarrow> error + 'a arr3" where
  "fancy3 X idx =
     (case fancy (trials X) idx of Inl e \<Rightarrow> Inl e | Inr ts \<Rightarrow> Inr (X\<lparr>trials := ts\<rparr>))"

text \<open>The epoched data handed to \<open>from_epo_to_dataset\<close>: \<open>epo.X\<close> and \<open>epo.y\<close>.\<close>

record 'a epo =
  epo_X :: "'a arr3"
  epo_y :: "int list"

text \<open>
  \<open>valid_len = int(floor(train_len * validation_frac))\<close>. The fraction is a float, so the
  product of the integer and the fraction is computed in float64 and is rounded. The
  float64 product, as the real number it denotes, is the parameter \<open>float_mul\<close>; \<open>floor\<close>
  and \<open>int\<close> of a float are exact.
\<close>

definition valid_len_of :: "(int \<Rightarrow> real \<Rightarrow> real) \<Rightarrow> int \<Rightarrow> real \<Rightarrow> int" where
  "valid_len_of float_mul train_len validation_frac = \<lfloor>float_mul train_len validation_frac\<rfloor>"

text \<open>
  The product without rounding. The float64 product is the same number wherever the
  exact product is itself a float64 value, as it is for a fraction of 0; the examples
  with a fraction of 0 use it for \<open>float_mul\<close>.
\<close>

definition exact_mul :: "int \<Rightarrow> real \<Rightarrow> real" where
  "exact_mul n f = real_of_int n * f"

text \<open>
  The three index windows computed by \<open>from_epo_to_dataset\<close> after
  \<open>train_len = train_len - valid_len\<close>: \<open>indexes[0:train_len]\<close>,
  \<open>indexes[train_len:(train_len + valid_len)]\<close> and \<open>indexes[-test_len:]\<close>. The argument
  \<open>train_len\<close> of the first two is the adjusted train length.
\<close>

definition train_indexes :: "nat \<Rightarrow> int \<Rightarrow> int list" where
  "train_indexes tot_len train_len = py_slice (arange 0 (int tot_len)) 0 train_len"

definition valid_indexes :: "nat \<Rightarrow> int \<Rightarrow> int \<Rightarrow> int list" where
  "valid_indexes tot_len train_len valid_len =
     py_slice (arange 0 (int tot_len)) train_len (train_len + valid_len)"

definition test_indexes :: "nat \<Rightarrow> int \<Rightarrow> int list" where
  "test_indexes tot_len test_len = py_slice_from (arange 0 (int tot_len)) (- test_len)"

definition from_epo_to_dataset ::
  "(int \<Rightarrow> real \<Rightarrow> real) \<Rightarrow> 'a epo \<Rightarrow> int \<Rightarrow> int \<Rightarrow> real
     \<Rightarrow> error + ('a, int list) EEGDataset" where
  "from_epo_to_dataset float_mul e train_len test_len validation_frac =
     (let tot_len = length (epo_y e);
          valid_len = valid_len_of float_mul train_len validation_frac;
          train_len' = train_len - valid_len;
          tr = train_indexes tot_len train_len';
          va = valid_indexes tot_len train_len' valid_len;
          te = test_indexes tot_len test_len
      in (case fancy3 (epo_X e) tr of Inl x \<Rightarrow> Inl x | Inr tr_x \<Rightarrow>
         (case fancy (epo_y e) tr of Inl x \<Rightarrow> Inl x | Inr tr_y \<Rightarrow>
         (case fancy3 (epo_X e) va of Inl x \<Rightarrow> Inl x | Inr va_x \<Rightarrow>
         (case fancy (epo_y e) va of Inl x \<Rightarrow> Inl x | Inr va_y \<Rightarrow>
         (case fancy3 (epo_X e) te of Inl x \<Rightarrow> Inl x | Inr te_x \<Rightarrow>
         (case fancy (epo_y e) te of Inl x \<Rightarrow> Inl x | Inr te_y \<Rightarrow>
            EEGDataset_init tr_x tr_y va_x va_y te_x te_y)))))))"

text \<open>
  \<open>make_crops\<close>: nothing happens when \<open>crop_sample_size\<close> is \<open>None\<close>; otherwise the three
  partitions are cropped in turn, each result replacing the fields it came from. An
  exception ends the call.
\<close>

definition make_crops ::
  "(('a::zero), int list) EEGDataset \<Rightarrow> int option \<Rightarrow> int
     \<Rightarrow> error + ('a, int list) EEGDataset" where
  "make_crops ds crop_sample_size_opt crop_step_arg =
     (case crop_sample_size_opt of
        None \<Rightarrow> Inr ds
      | Some c \<Rightarrow>
         (case crop_X_y (X_train ds) (y_train ds) c crop_step_arg of Inl x \<Rightarrow> Inl x
          | Inr (tr_x, tr_y) \<Rightarrow>
         (case crop_X_y (X_valid ds) (y_valid ds) c crop_step_arg of Inl x \<Rightarrow> Inl x
          | Inr (va_x, va_y) \<Rightarrow>
         (case crop_X_y (X_test ds) (y_test ds) c crop_step_arg of Inl x \<Rightarrow> Inl x
          | Inr (te_x, te_y) \<Rightarrow>
            Inr \<lparr>X_train = tr_x, y_train = tr_y, X_valid = va_x, y_valid = va_y,
                 X_test = te_x, y_test = te_y\<rparr>))))"

text \<open>
  \<open>unique\<close> returns the sorted distinct elements. \<open>keras.utils.to_categorical\<close> is a
  library function outside the repository: it is the parameter \<open>to_cat\<close>, from a label
  vector and a class count to an encoded array or an exception.
\<close>

definition np_unique :: "int list \<Rightarrow> int list" where
  "np_unique ys = sort (remdups ys)"

definition to_categorical ::
  "(int list \<Rightarrow> int \<Rightarrow> error + 'c) \<Rightarrow> ('a, int list) EEGDataset \<Rightarrow> int option
     \<Rightarrow> error + ('a, 'c) EEGDataset" where
  "to_categorical to_cat ds n_classes_opt =
     (let n = (case n_classes_opt of
                 None \<Rightarrow> int (length (np_unique (y_train ds)))
               | Some k \<Rightarrow> k)
      in (case to_cat (y_train ds) n of Inl x \<Rightarrow> Inl x | Inr tr_y \<Rightarrow>
         (case to_cat (y_valid ds) n of Inl x \<Rightarrow> Inl x | Inr va_y \<Rightarrow>
         (case to_cat (y_test ds) n of Inl x \<Rightarrow> Inl x | Inr te_y \<Rightarrow>
            Inr \<lparr>X_train = X_train ds, y_train = tr_y, X_valid = X_valid ds, y_valid = va_y,
                 X_test = X_test ds, y_test = te_y\<rparr>))))"

text \<open>
  An encoder to put in the place of \<open>to_cat\<close> in examples: labels within \<open>[0, n)\<close> become
  rows with a single 1 at the label's column, and a label outside raises IndexError.
\<close>

definition one_hot :: "int list \<Rightarrow> int \<Rightarrow> error + int list list" where
  "one_hot ys n =
     (if \<forall>l \<in> set ys. 0 \<le> l \<and> l < n
      then Inr (map (\<lambda>l. map (\<lambda>j. if int j = l then 1 else 0) [0..<nat n]) ys)
      else Inl IndexError)"

section \<open>EEGDataGenerator\<close>

text \<open>
  A four-dimensional array of shape \<open>(length (items B), axis1 B, chans4 B, samps4 B)\<close>, and
  \<open>X[:, newaxis, ...]\<close>, which inserts an axis of extent 1 after the first.
\<close>

record 'a arr4 =
  axis1 :: nat
  chans4 :: nat
  samps4 :: nat
  items :: "'a list list list list"

definition add_newaxis :: "'a arr3 \<Rightarrow> 'a arr4" where
  "add_newaxis X =
     \<lparr>axis1 = 1, chans4 = chans X, samps4 = samps X, items = map (\<lambda>t. [t]) (trials X)\<rparr>"

text \<open>\<open>append(A, B, axis=0)\<close>: the extents of the other axes must agree.\<close>

definition append3 :: "'a arr3 \<Rightarrow> 'a arr3 \<Rightarrow> error + 'a arr3" where
  "append3 A B =
     (if chans A = chans B \<and> samps A = samps B then Inr (A\<lparr>trials := trials A @ trials B\<rparr>)
      else Inl ValueError)"

text \<open>
  The fields of the generator. \<open>gen_X\<close> and \<open>gen_y\<close> are the source's \<open>self.X\<close> and
  \<open>self.y\<close>; \<open>indexes\<close> holds trial numbers and \<open>next_to_unpack\<close> points into it. The two
  stacks are \<open>None\<close> in the source only between their allocation and the first
  \<open>unpack_trial\<close> of the constructor, which overwrites them without reading them; the
  model starts them empty.
\<close>

record 'a EEGDataGenerator =
  gen_X :: "'a arr3"
  gen_y :: "int list"
  batch_size :: int
  n_trials :: nat
  n_channels :: nat
  n_samples :: nat
  n_classes :: int
  crop_sample_size :: int
  crop_step :: int
  n_crops_for_trial :: int
  n_crops :: int
  shuffle :: bool
  current_batch :: "int option"
  indexes :: "nat list"
  next_to_unpack :: nat
  crop_stack_X :: "'a arr3"
  crop_stack_y :: "int list"

text \<open>
  \<open>on_epoch_end\<close>: the identity order, shuffled when \<open>shuffle\<close> is set, and the pointer
  back to 0. The outcome of \<open>random.shuffle\<close> is the parameter \<open>rnd\<close>.
\<close>

definition on_epoch_end ::
  "(nat list \<Rightarrow> nat list) \<Rightarrow> 'a EEGDataGenerator \<Rightarrow> 'a EEGDataGenerator" where
  "on_epoch_end rnd g =
     g\<lparr>indexes := (if shuffle g then rnd [0..<n_trials g] else [0..<n_trials g]),
       next_to_unpack := 0\<rparr>"

text \<open>
  \<open>unpack_trial\<close>: the trial \<open>indexes[next_to_unpack]\<close> is cropped; its crops and labels
  replace the stacks when \<open>next_to_unpack\<close> is 0 and are appended to them otherwise; the
  pointer moves by one.
\<close>

definition unpack_trial :: "('a::zero) EEGDataGenerator \<Rightarrow> error + 'a EEGDataGenerator" where
  "unpack_trial g =
     (if \<not> next_to_unpack g < length (indexes g) then Inl IndexError
      else
        (let t = indexes g ! next_to_unpack g in
         (case trial_at (gen_X g) t of Inl e \<Rightarrow> Inl e | Inr A \<Rightarrow>
         (case crop_X A (n_crops_for_trial g) (crop_sample_size g) (crop_step g) of
            Inl e \<Rightarrow> Inl e | Inr C \<Rightarrow>
         (case (if next_to_unpack g = 0 then Inr C else append3 (crop_stack_X g) C) of
            Inl e \<Rightarrow> Inl e | Inr SX \<Rightarrow>
         (case label_at (gen_y g) t of Inl e \<Rightarrow> Inl e | Inr l \<Rightarrow>
         (case crop_y l (n_crops_for_trial g) of Inl e \<Rightarrow> Inl e | Inr ls \<Rightarrow>
            Inr (g\<lparr>crop_stack_X := SX,
                   crop_stack_y := (if next_to_unpack g = 0 then ls else crop_stack_y g @ ls),
                   next_to_unpack := next_to_unpack g + 1\<rparr>))))))))"

text \<open>\<open>EEGDataGenerator.__init__\<close>.\<close>

definition EEGDataGenerator_init ::
  "(nat list \<Rightarrow> nat list) \<Rightarrow> ('a::zero) arr3 \<Rightarrow> int list \<Rightarrow> int \<Rightarrow> int option \<Rightarrow> int \<Rightarrow> int \<Rightarrow> bool
     \<Rightarrow> error + 'a EEGDataGenerator" where
  "EEGDataGenerator_init rnd X ys bs n_classes_opt crop_size step shuf =
     (case n_crops_of (samps X) crop_size step of Inl e \<Rightarrow> Inl e | Inr cpt \<Rightarrow>
        unpack_trial (on_epoch_end rnd
          \<lparr>gen_X = X, gen_y = ys, batch_size = bs,
           n_trials = length (trials X), n_channels = chans X, n_samples = samps X,
           n_classes = (case n_classes_opt of
                          None \<Rightarrow> int (length (np_unique ys)) | Some k \<Rightarrow> k),
           crop_sample_size = crop_size, crop_step = step,
           n_crops_for_trial = cpt, n_crops = cpt * int (length (trials X)),
           shuffle = shuf, current_batch = None,
           indexes = [], next_to_unpack = 0,
           crop_stack_X = \<lparr>chans = 0, samps = 0, trials = []\<rparr>, crop_stack_y = []\<rparr>))"

text \<open>\<open>__len__\<close>: \<open>int(floor(n_crops / batch_size))\<close>.\<close>

definition len_batches :: "'a EEGDataGenerator \<Rightarrow> error + int" where
  "len_batches g =
     (if batch_size g = 0 then Inl ZeroDivisionError
      else Inr \<lfloor>real_of_int (n_crops g) / real_of_int (batch_size g)\<rfloor>)"

text \<open>
  The \<open>while\<close> loop of \<open>__data_generation\<close>. Every successful \<open>unpack_trial\<close> moves the
  pointer towards the end of \<open>indexes\<close>, and the one after the end raises.
\<close>

function refill :: "('a::zero) EEGDataGenerator \<Rightarrow> error + 'a EEGDataGenerator" where
  "refill g =
     (if int (length (crop_stack_y g)) < batch_size g then
        (case unpack_trial g of Inl e \<Rightarrow> Inl e | Inr g' \<Rightarrow> refill g')
      else Inr g)"
  by pat_completeness auto
termination
  by (relation "measure (\<lambda>g. length (indexes g) - next_to_unpack g)")
     (auto simp: unpack_trial_def Let_def split: if_splits sum.splits)

text \<open>
  \<open>__data_generation\<close>: refill, read the first \<open>batch_size\<close> entries of both stacks, keep
  the rest, add the axis and encode the labels. It returns the batch and the generator
  after the call.
\<close>

definition data_generation ::
  "(int list \<Rightarrow> int \<Rightarrow> error + 'c) \<Rightarrow> ('a::zero) EEGDataGenerator
     \<Rightarrow> error + (('a arr4 \<times> 'c) \<times> 'a EEGDataGenerator)" where
  "data_generation to_cat g =
     (case refill g of Inl e \<Rightarrow> Inl e | Inr g1 \<Rightarrow>
        (let first = arange 0 (batch_size g1);
             rest = arange (batch_size g1) (int (length (crop_stack_y g1)))
         in (case fancy3 (crop_stack_X g1) first of Inl e \<Rightarrow> Inl e | Inr b_X \<Rightarrow>
            (case fancy (crop_stack_y g1) first of Inl e \<Rightarrow> Inl e | Inr b_y \<Rightarrow>
            (case fancy3 (crop_stack_X g1) rest of Inl e \<Rightarrow> Inl e | Inr rX \<Rightarrow>
            (case fancy (crop_stack_y g1) rest of Inl e \<Rightarrow> Inl e | Inr ry \<Rightarrow>
            (case to_cat b_y (n_classes g1) of Inl e \<Rightarrow> Inl e | Inr cy \<Rightarrow>
               Inr ((add_newaxis b_X, cy), g1\<lparr>crop_stack_X := rX, crop_stack_y := ry\<rparr>))))))))"

text \<open>\<open>__getitem__\<close> records the index and generates the batch.\<close>

definition getitem ::
  "(int list \<Rightarrow> int \<Rightarrow> error + 'c) \<Rightarrow> ('a::zero) EEGDataGenerator \<Rightarrow> int
     \<Rightarrow> error + (('a arr4 \<times> 'c) \<times> 'a EEGDataGenerator)" where
  "getitem to_cat g index = data_generation to_cat (g\<lparr>current_batch := Some index\<rparr>)"

subsection \<open>Descriptions used to state results about the generator\<close>

text \<open>
  The crops and the labels that \<open>unpack_trial\<close> produces for trial \<open>t\<close> when the geometry is
  valid.
\<close>

definition trial_crops :: "'a EEGDataGenerator \<Rightarrow> nat \<Rightarrow> 'a list list list" where
  "trial_crops g t =
     windows (trials (gen_X g) ! t) (nat (n_crops_for_trial g))
       (nat (crop_sample_size g)) (nat (crop_step g))"

definition trial_labels :: "'a EEGDataGenerator \<Rightarrow> nat \<Rightarrow> int list" where
  "trial_labels g t = replicate (nat (n_crops_for_trial g)) (gen_y g ! t)"

text \<open>
  A generator in good order: a well-formed array of trials with one label each, a valid
  geometry with its crop counts, an index order over the trials, stacks of equal length
  whose shape, once a trial has been unpacked, is that of the crops, and a positive batch
  size.
\<close>

definition gen_ok :: "'a EEGDataGenerator \<Rightarrow> bool" where
  "gen_ok g =
     (wf3 (gen_X g)
    \<and> length (gen_y g) = length (trials (gen_X g))
    \<and> n_trials g = length (trials (gen_X g))
    \<and> 0 < crop_sample_size g \<and> crop_sample_size g \<le> int (samps (gen_X g))
    \<and> 0 < crop_step g
    \<and> n_crops_for_trial g = int (crops_of (samps (gen_X g)) (crop_sample_size g) (crop_step g))
    \<and> n_crops g = n_crops_for_trial g * int (n_trials g)
    \<and> length (indexes g) = n_trials g
    \<and> (\<forall>t \<in> set (indexes g). t < n_trials g)
    \<and> (next_to_unpack g \<noteq> 0 \<longrightarrow>
          chans (crop_stack_X g) = chans (gen_X g)
        \<and> samps (crop_stack_X g) = nat (crop_sample_size g))
    \<and> length (trials (crop_stack_X g)) = length (crop_stack_y g)
    \<and> 0 < batch_size g)"

text \<open>
  The generator after one \<open>unpack_trial\<close>, and after the first \<open>batch_size\<close> entries have
  been taken off both stacks.
\<close>

definition after_unpack :: "'a EEGDataGenerator \<Rightarrow> 'a EEGDataGenerator" where
  "after_unpack g =
     g\<lparr>crop_stack_X :=
         \<lparr>chans = chans (gen_X g), samps = nat (crop_sample_size g),
          trials = (if next_to_unpack g = 0 then [] else trials (crop_stack_X g))
                   @ trial_crops g (indexes g ! next_to_unpack g)\<rparr>,
       crop_stack_y :=
         (if next_to_unpack g = 0 then [] else crop_stack_y g)
         @ trial_labels g (indexes g ! next_to_unpack g),
       next_to_unpack := next_to_unpack g + 1\<rparr>"

definition after_pop :: "'a EEGDataGenerator \<Rightarrow> 'a EEGDataGenerator" where
  "after_pop g =
     g\<lparr>crop_stack_X :=
         (crop_stack_X g)\<lparr>trials := drop (nat (batch_size g)) (trials (crop_stack_X g))\<rparr>,
       crop_stack_y := drop (nat (batch_size g)) (crop_stack_y g)\<rparr>"

text \<open>
  The conservation equation after \<open>e\<close> batches of the current epoch: the stack holds what
  the trials unpacked so far produced, less what the batches took.
\<close>

definition conserved :: "'a EEGDataGenerator \<Rightarrow> nat \<Rightarrow> bool" where
  "conserved g e =
     (int (length (crop_stack_y g))
        = int (next_to_unpack g) * n_crops_for_trial g - batch_size g * int e
    \<and> length (trials (crop_stack_X g)) = length (crop_stack_y g))"

text \<open>
  The states a trainer sees after construction and after each batch request, with the
  number of batches of the current epoch. A new epoch is entered by \<open>on_epoch_end\<close>
  (with any shuffle outcome that keeps the length) when fewer than \<open>batch_size\<close> crops
  are left, and its first request follows.
\<close>

inductive epoch_states ::
  "(int list \<Rightarrow> int \<Rightarrow> error + 'c) \<Rightarrow> ('a::zero) EEGDataGenerator
     \<Rightarrow> 'a EEGDataGenerator \<Rightarrow> nat \<Rightarrow> bool"
  for to_cat :: "int list \<Rightarrow> int \<Rightarrow> error + 'c" and g0 :: "('a::zero) EEGDataGenerator" where
  constructed: "epoch_states to_cat g0 g0 0"
| batch: "epoch_states to_cat g0 g e \<Longrightarrow> getitem to_cat g i = Inr (r, g')
          \<Longrightarrow> epoch_states to_cat g0 g' (Suc e)"
| new_epoch: "epoch_states to_cat g0 g e
          \<Longrightarrow> int (length (crop_stack_y g)) < batch_size g
          \<Longrightarrow> length (rnd [0..<n_trials g]) = n_trials g
          \<Longrightarrow> getitem to_cat (on_epoch_end rnd g) i = Inr (r, g')
          \<Longrightarrow> epoch_states to_cat g0 g' 1"

text \<open>
  An example: two trials of one channel and two samples, windows of one sample with
  stride 1, batches of three, no shuffling. This is the generator as constructed.
\<close>

definition example_gen :: "int EEGDataGenerator" where
  "example_gen =
     \<lparr>gen_X = \<lparr>chans = 1, samps = 2, trials = [[[1, 2]], [[3, 4]]]\<rparr>, gen_y = [0, 1],
      batch_size = 3, n_trials = 2, n_channels = 1, n_samples = 2, n_classes = 2,
      crop_sample_size = 1, crop_step = 1, n_crops_for_trial = 2, n_crops = 4,
      shuffle = False, current_batch = None, indexes = [0, 1], next_to_unpack = 1,
      crop_stack_X = \<lparr>chans = 1, samps = 1, trials = [[[1]], [[2]]]\<rparr>,
      crop_stack_y = [0, 0]\<rparr>"

section \<open>Cropping: what the loops compute\<close>

lemma slice_idx_nonneg: "0 \<le> i \<Longrightarrow> i \<le> int n \<Longrightarrow> slice_idx i n = nat i"
  by (simp add: slice_idx_def)

lemma py_slice_inb:
  "0 \<le> a \<Longrightarrow> a \<le> b \<Longrightarrow> b \<le> int (length xs) \<Longrightarrow>
   py_slice xs a b = take (nat (b - a)) (drop (nat a) xs)"
  by (simp add: py_slice_def slice_idx_nonneg Let_def nat_diff_distrib)

lemma slice_cols_inb:
  assumes "wf2 A" "0 \<le> a" "0 \<le> W" "a + W \<le> int (cols A)"
  shows "slice_cols A a (W + a) =
         \<lparr>cols = nat W, rows = map (\<lambda>r. take (nat W) (drop (nat a) r)) (rows A)\<rparr>"
proof -
  have c: "slice_idx (W + a) (cols A) - slice_idx a (cols A) = nat W"
    using assms by (simp add: slice_idx_nonneg nat_diff_distrib)
  have r: "map (\<lambda>r. py_slice r a (W + a)) (rows A) =
           map (\<lambda>r. take (nat W) (drop (nat a) r)) (rows A)"
  proof (rule map_cong[OF refl])
    fix r assume "r \<in> set (rows A)"
    then have "length r = cols A" using assms(1) by (simp add: wf2_def)
    then show "py_slice r a (W + a) = take (nat W) (drop (nat a) r)"
      using assms py_slice_inb[of a "W + a" r] by simp
  qed
  show ?thesis by (simp add: slice_cols_def c r)
qed

lemma expand_same: "length xs = k \<Longrightarrow> expand k xs = xs"
  by (simp add: expand_def)

lemma assign_at_fit:
  assumes "i < length (trials D)" "length (rows B) = chans D" "cols B = samps D" "wf2 B"
  shows "assign_at D i B = Inr (D\<lparr>trials := (trials D)[i := rows B]\<rparr>)"
proof -
  have "map (expand (samps D)) (rows B) = rows B"
    using assms by (simp add: wf2_def expand_same map_idI)
  then show ?thesis using assms by (simp add: assign_at_def bc_ok_def expand_same)
qed

declare crop_X_loop.simps [simp del]

lemma crop_X_loop_inv:
  assumes "wf2 A" "0 \<le> W" "0 \<le> S"
    and "\<forall>j<n. int j * S + W \<le> int (cols A)"
    and "length (trials D) = n" "chans D = length (rows A)" "samps D = nat W"
  shows "i \<le> n \<Longrightarrow> crop_X_loop A S n i D (int i * S) (W + int i * S) =
         Inr (D\<lparr>trials := take i (trials D) @ map (window (rows A) (nat W) (nat S)) [i..<n]\<rparr>)"
  using assms(5-)
proof (induction "n - i" arbitrary: i D)
  case 0
  then show ?case by (subst crop_X_loop.simps) simp
next
  case (Suc k)
  then have lt: "i < n" by simp
  have inb: "int i * S + W \<le> int (cols A)" using assms(4) lt by simp
  let ?B = "\<lparr>cols = nat W, rows = window (rows A) (nat W) (nat S) i\<rparr>"
  have nat_eq: "nat (int i * S) = i * nat S" using assms(3) by (simp add: nat_mult_distrib)
  have sc: "slice_cols A (int i * S) (W + int i * S) = ?B"
    using slice_cols_inb[OF assms(1), of "int i * S" W] inb assms(2,3)
    by (simp add: window_def nat_eq)
  have inb_nat: "i * nat S + nat W \<le> cols A"
  proof -
    have "int (i * nat S + nat W) = int i * S + W" using assms(2,3) by simp
    then show ?thesis using inb by linarith
  qed
  have wfB: "wf2 ?B"
    using assms(1) inb_nat by (auto simp: wf2_def window_def)
  have as: "assign_at D i ?B = Inr (D\<lparr>trials := (trials D)[i := rows ?B]\<rparr>)"
    apply (rule assign_at_fit)
    using Suc.prems lt wfB by (simp_all add: window_def)
  let ?D' = "D\<lparr>trials := (trials D)[i := window (rows A) (nat W) (nat S) i]\<rparr>"
  have ih: "crop_X_loop A S n (Suc i) ?D' (int (Suc i) * S) (W + int (Suc i) * S) =
         Inr (?D'\<lparr>trials := take (Suc i) (trials ?D') @ map (window (rows A) (nat W) (nat S)) [Suc i..<n]\<rparr>)"
    apply (rule Suc.hyps(1))
    using Suc.hyps(2) Suc.prems lt by simp_all
  have step: "int i * S + S = int (Suc i) * S" "W + int i * S + S = W + int (Suc i) * S"
    by (simp_all add: algebra_simps)
  have tk: "take (Suc i) ((trials D)[i := w]) = take i (trials D) @ [w]" for w
    using Suc.prems lt by (simp add: take_Suc_conv_app_nth)
  have unf: "crop_X_loop A S n i D (int i * S) (W + int i * S) =
             crop_X_loop A S n (Suc i) ?D' (int i * S + S) (W + int i * S + S)"
    by (subst crop_X_loop.simps) (simp add: lt sc as)
  have "crop_X_loop A S n i D (int i * S) (W + int i * S) =
        Inr (?D'\<lparr>trials := take (Suc i) (trials ?D') @ map (window (rows A) (nat W) (nat S)) [Suc i..<n]\<rparr>)"
    by (simp only: unf step ih)
  also have "\<dots> = Inr (D\<lparr>trials := take i (trials D) @ map (window (rows A) (nat W) (nat S)) [i..<n]\<rparr>)"
    using lt by (simp add: tk upt_conv_Cons)
  finally show ?case .
qed

lemma crop_X_eq:
  assumes "wf2 A" "0 \<le> W" "0 \<le> S" "\<forall>j<n. int j * S + W \<le> int (cols A)"
  shows "crop_X A (int n) W S =
         Inr \<lparr>chans = length (rows A), samps = nat W,
              trials = windows (rows A) n (nat W) (nat S)\<rparr>"
proof -
  let ?Z = "\<lparr>chans = length (rows A), samps = nat W,
             trials = replicate n (replicate (length (rows A)) (replicate (nat W) (0::'a)))\<rparr>"
  have z: "zeros3 (int n) (length (rows A)) W = Inr ?Z"
    using assms(2) by (simp add: zeros3_def)
  have "crop_X_loop A S n 0 ?Z (int 0 * S) (W + int 0 * S) =
        Inr (?Z\<lparr>trials := take 0 (trials ?Z) @ map (window (rows A) (nat W) (nat S)) [0..<n]\<rparr>)"
    by (rule crop_X_loop_inv[OF assms]) simp_all
  then show ?thesis by (simp add: crop_X_def z windows_def)
qed

lemma length_windows: "length (windows t n W S) = n"
  by (simp add: windows_def)

lemma wf3_windows:
  assumes "\<forall>r \<in> set t. length r = L" "\<forall>j<n. j * S + W \<le> L"
  shows "wf3 \<lparr>chans = length t, samps = W, trials = windows t n W S\<rparr>"
  using assms by (auto simp: wf3_def windows_def window_def)

lemma expand3_same:
  assumes "wf3 C" "chans C = h" "samps C = w"
  shows "map (\<lambda>t. expand h (map (expand w) t)) (trials C) = trials C"
proof (rule map_idI)
  fix t assume t: "t \<in> set (trials C)"
  then have "map (expand w) t = t"
    using assms by (auto simp: wf3_def expand_same intro: map_idI)
  then show "expand h (map (expand w) t) = t"
    using assms t by (simp add: wf3_def expand_same)
qed

lemma assign_slice3_fit:
  assumes "a + n \<le> length (trials D)" "length (trials C) = n"
    "chans C = chans D" "samps C = samps D" "wf3 C"
  shows "assign_slice3 D (int a) (int a + int n) C =
         Inr (D\<lparr>trials := take a (trials D) @ trials C @ drop (a + n) (trials D)\<rparr>)"
proof -
  have lo: "slice_idx (int a) (length (trials D)) = a"
    using assms(1) by (simp add: slice_idx_def)
  have hi: "slice_idx (int a + int n) (length (trials D)) = a + n"
    using assms(1) by (simp add: slice_idx_def nat_add_distrib)
  show ?thesis
    using assms(2-4) expand3_same[OF assms(5) assms(3) assms(4)]
    by (simp add: assign_slice3_def lo hi bc_ok_def expand_same)
qed

lemma assign_slice1_fit:
  assumes "a + n \<le> length D" "length C = n"
  shows "assign_slice1 D (int a) (int a + int n) C = Inr (take a D @ C @ drop (a + n) D)"
proof -
  have lo: "slice_idx (int a) (length D) = a"
    using assms(1) by (simp add: slice_idx_def)
  have hi: "slice_idx (int a + int n) (length D) = a + n"
    using assms(1) by (simp add: slice_idx_def nat_add_distrib)
  show ?thesis using assms(2) by (simp add: assign_slice1_def lo hi bc_ok_def expand_same)
qed

declare crop_X_y_loop.simps [simp del]

lemma crop_X_y_loop_inv:
  assumes wf: "wf3 X" and W: "0 \<le> W" and S: "0 \<le> S"
    and inb: "\<forall>j<n. int j * S + W \<le> int (samps X)"
    and ys: "length (trials X) \<le> length ys"
  shows "i \<le> length (trials X) \<Longrightarrow> length (trials D) = n * length (trials X) \<Longrightarrow>
         chans D = chans X \<Longrightarrow> samps D = nat W \<Longrightarrow> length Y = n * length (trials X) \<Longrightarrow>
         crop_X_y_loop X ys (int n) W S i D Y (int (i * n)) (int (i * n) + int n) =
         Inr (D\<lparr>trials := take (i * n) (trials D)
                   @ concat (map (\<lambda>t. windows t n (nat W) (nat S)) (drop i (trials X)))\<rparr>,
              take (i * n) Y
                @ concat (map (replicate n) (drop i (take (length (trials X)) ys))))"
proof (induction "length (trials X) - i" arbitrary: i D Y)
  case 0
  then show ?case by (subst crop_X_y_loop.simps) simp
next
  case (Suc k)
  let ?d = "length (trials X)"
  let ?t = "trials X ! i"
  let ?A = "\<lparr>cols = samps X, rows = ?t\<rparr>"
  let ?C = "\<lparr>chans = length ?t, samps = nat W, trials = windows ?t n (nat W) (nat S)\<rparr>"
  from Suc have lt: "i < ?d" by simp
  have tin: "?t \<in> set (trials X)" using lt by simp
  have lent: "length ?t = chans X" and rowlen: "\<forall>r \<in> set ?t. length r = samps X"
    using wf tin by (auto simp: wf3_def)
  have ta: "trial_at X i = Inr ?A" using lt by (simp add: trial_at_def)
  have wfA: "wf2 ?A" using rowlen by (simp add: wf2_def)
  have cx: "crop_X ?A (int n) W S = Inr ?C"
    using crop_X_eq[OF wfA W S] inb by simp
  have inb_nat: "\<forall>j<n. j * nat S + nat W \<le> samps X"
  proof (intro allI impI)
    fix j assume "j < n"
    then have "int j * S + W \<le> int (samps X)" using inb by simp
    moreover have "int (j * nat S + nat W) = int j * S + W" using W S by simp
    ultimately show "j * nat S + nat W \<le> samps X" by linarith
  qed
  have wfC: "wf3 ?C" by (rule wf3_windows[OF rowlen inb_nat])
  have room: "i * n + n \<le> n * ?d"
  proof -
    have "Suc i * n \<le> ?d * n" using lt by (intro mult_le_mono1) simp
    then show ?thesis by (simp add: mult.commute)
  qed
  let ?TD = "take (i * n) (trials D) @ windows ?t n (nat W) (nat S) @ drop (i * n + n) (trials D)"
  let ?D' = "D\<lparr>trials := ?TD\<rparr>"
  have a3: "assign_slice3 D (int (i * n)) (int (i * n) + int n) ?C = Inr ?D'"
    using assign_slice3_fit[of "i * n" n D ?C] room Suc.prems lent wfC
    by (simp add: length_windows)
  have la: "label_at ys i = Inr (ys ! i)" using lt ys by (simp add: label_at_def)
  have cy: "crop_y (ys ! i) (int n) = Inr (replicate n (ys ! i))" by (simp add: crop_y_def)
  let ?Y' = "take (i * n) Y @ replicate n (ys ! i) @ drop (i * n + n) Y"
  have a1: "assign_slice1 Y (int (i * n)) (int (i * n) + int n) (replicate n (ys ! i)) = Inr ?Y'"
    using assign_slice1_fit[of "i * n" n Y "replicate n (ys ! i)"] room Suc.prems by simp
  have unf: "crop_X_y_loop X ys (int n) W S i D Y (int (i * n)) (int (i * n) + int n) =
             crop_X_y_loop X ys (int n) W S (Suc i) ?D' ?Y' (int (i * n) + int n)
               (int (i * n) + int n + int n)"
    by (subst crop_X_y_loop.simps) (simp only: lt if_True ta cx a3 la cy a1 sum.case)
  have idx: "int (i * n) + int n = int (Suc i * n)" by simp
  have lenTD: "length ?TD = n * ?d" using room Suc.prems by (simp add: length_windows)
  have lenY': "length ?Y' = n * ?d" using room Suc.prems by simp
  have ih: "crop_X_y_loop X ys (int n) W S (Suc i) ?D' ?Y' (int (Suc i * n)) (int (Suc i * n) + int n) =
         Inr (?D'\<lparr>trials := take (Suc i * n) (trials ?D')
                   @ concat (map (\<lambda>t. windows t n (nat W) (nat S)) (drop (Suc i) (trials X)))\<rparr>,
              take (Suc i * n) ?Y'
                @ concat (map (replicate n) (drop (Suc i) (take ?d ys))))"
    apply (rule Suc.hyps(1))
    using Suc.hyps(2) Suc.prems lt lenTD lenY' by simp_all
  have tkD: "take (Suc i * n) (trials ?D') = take (i * n) (trials D) @ windows ?t n (nat W) (nat S)"
    using room Suc.prems by (simp add: length_windows)
  have tkY: "take (Suc i * n) ?Y' = take (i * n) Y @ replicate n (ys ! i)"
    using room Suc.prems by simp
  have drX: "drop i (trials X) = ?t # drop (Suc i) (trials X)"
    using lt by (simp add: Cons_nth_drop_Suc)
  have drY: "drop i (take ?d ys) = ys ! i # drop (Suc i) (take ?d ys)"
  proof -
    have "i < length (take ?d ys)" using lt ys by simp
    from Cons_nth_drop_Suc[OF this] show ?thesis using lt by simp
  qed
  show ?case
    apply (simp only: unf ih[folded idx])
    apply (simp only: tkD tkY)
    apply (subst drX)
    apply (subst drY)
    apply simp
    done
qed

lemma crop_X_y_eq:
  assumes wf: "wf3 X" and W: "0 \<le> W" and S: "0 \<le> S"
    and n: "n_crops_of (samps X) W S = Inr (int n)"
    and inb: "\<forall>j<n. int j * S + W \<le> int (samps X)"
    and ys: "length (trials X) \<le> length ys"
  shows "crop_X_y X ys W S =
         Inr (\<lparr>chans = chans X, samps = nat W,
               trials = concat (map (\<lambda>t. windows t n (nat W) (nat S)) (trials X))\<rparr>,
              concat (map (replicate n) (take (length (trials X)) ys)))"
proof -
  let ?d = "length (trials X)"
  let ?Z = "\<lparr>chans = chans X, samps = nat W,
             trials = replicate (n * ?d) (replicate (chans X) (replicate (nat W) (0::'a)))\<rparr>"
  have nd: "nat (int n * int ?d) = n * ?d" by (simp add: nat_mult_distrib)
  have z: "zeros3 (int n * int ?d) (chans X) W = Inr ?Z"
  proof -
    have "\<not> int n * int ?d < 0" by (simp add: not_less)
    then show ?thesis using W by (simp add: zeros3_def nd)
  qed
  have loop: "crop_X_y_loop X ys (int n) W S 0 ?Z (replicate (n * ?d) 0)
                (int (0 * n)) (int (0 * n) + int n) =
        Inr (?Z\<lparr>trials := take (0 * n) (trials ?Z)
                   @ concat (map (\<lambda>t. windows t n (nat W) (nat S)) (drop 0 (trials X)))\<rparr>,
              take (0 * n) (replicate (n * ?d) 0)
                @ concat (map (replicate n) (drop 0 (take ?d ys))))"
    by (rule crop_X_y_loop_inv[OF wf W S inb ys]) simp_all
  show ?thesis
    using loop by (simp add: crop_X_y_def n z nd)
qed

lemma ceil_succ_div:
  assumes "0 \<le> m" "0 < S"
  shows "\<lceil>real_of_int (m + 1) / real_of_int S\<rceil> = m div S + 1"
proof (rule ceiling_unique)
  have m: "m = S * (m div S) + m mod S" by simp
  have r: "0 \<le> m mod S" "m mod S < S" using assms by simp_all
  have lo: "S * (m div S) < m + 1" using m r by linarith
  have hi: "m + 1 \<le> S * (m div S) + S" using m r by linarith
  have "real_of_int (S * (m div S)) < real_of_int (m + 1)" using lo by linarith
  then have "real_of_int (m div S) * real_of_int S < real_of_int (m + 1)"
    by (simp add: mult.commute)
  then show "real_of_int (m div S + 1) - 1 < real_of_int (m + 1) / real_of_int S"
    using assms by (simp add: pos_less_divide_eq)
  have "real_of_int (m + 1) \<le> real_of_int (S * (m div S) + S)" using hi by linarith
  then have "real_of_int (m + 1) \<le> (real_of_int (m div S) + 1) * real_of_int S"
    by (simp add: algebra_simps)
  then show "real_of_int (m + 1) / real_of_int S \<le> real_of_int (m div S + 1)"
    using assms by (simp add: pos_divide_le_eq)
qed

lemma n_crops_valid:
  assumes "0 < W" "W \<le> int L" "0 < S"
  shows "n_crops_of L W S = Inr (int (nat ((int L - W) div S + 1)))"
    and "\<forall>j < nat ((int L - W) div S + 1). int j * S + W \<le> int L"
    and "0 < nat ((int L - W) div S + 1)"
proof -
  let ?m = "int L - W"
  have m0: "0 \<le> ?m" using assms by simp
  have q0: "0 \<le> ?m div S" using m0 assms(3) by (simp add: pos_imp_zdiv_nonneg_iff)
  have "\<lceil>real_of_int (?m + 1) / real_of_int S\<rceil> = ?m div S + 1"
    by (rule ceil_succ_div[OF m0 assms(3)])
  then show "n_crops_of L W S = Inr (int (nat (?m div S + 1)))"
    using assms(3) q0 by (simp add: n_crops_of_def)
  show "0 < nat (?m div S + 1)" using q0 by simp
  show "\<forall>j < nat (?m div S + 1). int j * S + W \<le> int L"
  proof (intro allI impI)
    fix j assume "j < nat (?m div S + 1)"
    then have "int j \<le> ?m div S" using q0 by linarith
    then have "int j * S \<le> (?m div S) * S" using assms(3) by (simp add: mult_right_mono)
    also have "\<dots> \<le> ?m"
    proof -
      have "?m = (?m div S) * S + ?m mod S" by simp
      moreover have "0 \<le> ?m mod S" using assms(3) by simp
      ultimately show ?thesis by linarith
    qed
    finally show "int j * S + W \<le> int L" by linarith
  qed
qed

lemma length_concat_uniform:
  "\<forall>x \<in> set xs. length (f x) = n \<Longrightarrow> length (concat (map f xs)) = length xs * n"
  by (induction xs) simp_all

lemma concat_nth_uniform:
  "\<forall>x \<in> set xs. length (f x) = n \<Longrightarrow> t < length xs \<Longrightarrow> i < n \<Longrightarrow>
   concat (map f xs) ! (t * n + i) = f (xs ! t) ! i"
proof (induction xs arbitrary: t)
  case Nil
  then show ?case by simp
next
  case (Cons x xs)
  show ?case
  proof (cases t)
    case 0
    then show ?thesis using Cons.prems by (simp add: nth_append)
  next
    case (Suc u)
    then have "concat (map f (x # xs)) ! (t * n + i) = concat (map f xs) ! (u * n + i)"
      using Cons.prems by (simp add: nth_append)
    then show ?thesis using Cons Suc by simp
  qed
qed

lemma window_nth:
  assumes "c < length t" "k < W" "i * S + W \<le> length (t ! c)"
  shows "window t W S i ! c ! k = t ! c ! (i * S + k)"
  using assms by (simp add: window_def)

text \<open>
  C1. For a well-formed array of trials with \<open>L\<close> samples each and a geometry with
  \<open>0 < W \<le> L\<close> and \<open>0 < S\<close>: the crop count is \<open>ceil((L - W + 1) / S)\<close>; \<open>crop_X_y\<close>
  returns that many windows per trial, each of shape (channels, W); \<open>crop_X\<close> of trial \<open>t\<close>
  returns exactly the block of windows of that trial; and sample \<open>k\<close> of channel \<open>c\<close> of
  window \<open>i\<close> is the trial's sample \<open>i * S + k\<close>, the window ending at or before \<open>L\<close>.
\<close>

theorem crop_count_and_windows:
  fixes X :: "('a::zero) arr3" and ys :: "('l::zero) list"
  assumes "wf3 X" "0 < W" "W \<le> int (samps X)" "0 < S" "length ys = length (trials X)"
  shows "\<exists>n X' y'.
           n_crops_of (samps X) W S = Inr (int n)
         \<and> int n = \<lceil>real_of_int (int (samps X) - W + 1) / real_of_int S\<rceil>
         \<and> crop_X_y X ys W S = Inr (X', y')
         \<and> length (trials X') = length (trials X) * n
         \<and> chans X' = chans X \<and> samps X' = nat W \<and> wf3 X'
         \<and> (\<forall>t < length (trials X). \<forall>i < n.
               i * nat S + nat W \<le> samps X
             \<and> crop_X \<lparr>cols = samps X, rows = trials X ! t\<rparr> (int n) W S =
                 Inr \<lparr>chans = chans X, samps = nat W,
                      trials = take n (drop (t * n) (trials X'))\<rparr>
             \<and> (\<forall>c < chans X. \<forall>k < nat W.
                   trials X' ! (t * n + i) ! c ! k = trials X ! t ! c ! (i * nat S + k)))"
proof -
  define n where "n = nat ((int (samps X) - W) div S + 1)"
  let ?f = "\<lambda>t. windows t n (nat W) (nat S)"
  let ?X' = "\<lparr>chans = chans X, samps = nat W, trials = concat (map ?f (trials X))\<rparr>"
  let ?y' = "concat (map (replicate n) ys)"
  note nv = n_crops_valid[OF assms(2,3,4), folded n_def]
  have W0: "0 \<le> W" and S0: "0 \<le> S" using assms by simp_all
  have inb_nat: "j * nat S + nat W \<le> samps X" if "j < n" for j
  proof -
    have "int j * S + W \<le> int (samps X)" using nv(2) that by simp
    moreover have "int (j * nat S + nat W) = int j * S + W" using W0 S0 by simp
    ultimately show ?thesis by linarith
  qed
  have ceil: "int n = \<lceil>real_of_int (int (samps X) - W + 1) / real_of_int S\<rceil>"
    using nv(1) assms(4) by (simp add: n_crops_of_def)
  have cxy: "crop_X_y X ys W S = Inr (?X', ?y')"
    using crop_X_y_eq[OF assms(1) W0 S0 nv(1) nv(2), where ys = ys] assms(5) by simp
  have lenf: "\<forall>t \<in> set (trials X). length (?f t) = n" by (simp add: length_windows)
  have len0: "length (concat (map ?f (trials X))) = length (trials X) * n"
    by (rule length_concat_uniform[OF lenf])
  have len: "length (trials ?X') = length (trials X) * n"
    using len0 by simp
  have wfX': "wf3 ?X'"
    using assms(1) by (auto simp: wf3_def windows_def window_def dest!: inb_nat)
  have per: "i * nat S + nat W \<le> samps X
             \<and> crop_X \<lparr>cols = samps X, rows = trials X ! t\<rparr> (int n) W S =
                 Inr \<lparr>chans = chans X, samps = nat W,
                      trials = take n (drop (t * n) (trials ?X'))\<rparr>
             \<and> (\<forall>c < chans X. \<forall>k < nat W.
                   trials ?X' ! (t * n + i) ! c ! k = trials X ! t ! c ! (i * nat S + k))"
    if t: "t < length (trials X)" and i: "i < n" for t i
  proof -
    let ?t = "trials X ! t"
    have tin: "?t \<in> set (trials X)" using t by simp
    have lent: "length ?t = chans X" and rowlen: "\<forall>r \<in> set ?t. length r = samps X"
      using assms(1) tin by (auto simp: wf3_def)
    have wfA: "wf2 \<lparr>cols = samps X, rows = ?t\<rparr>" using rowlen by (simp add: wf2_def)
    have blk: "take n (drop (t * n) (concat (map ?f (trials X)))) = ?f ?t"
    proof (rule nth_equalityI)
      have "t * n + n \<le> length (trials X) * n"
        using t mult_le_mono1[of "Suc t" "length (trials X)" n] by simp
      then have "n \<le> length (trials X) * n - t * n" by arith
      then have "min (length (concat (map ?f (trials X))) - t * n) n = n"
        by (simp only: len0 min_absorb2)
      then show "length (take n (drop (t * n) (concat (map ?f (trials X))))) = length (?f ?t)"
        by (simp only: length_take length_drop length_windows min.commute)
    next
      fix j assume "j < length (take n (drop (t * n) (concat (map ?f (trials X)))))"
      then have j: "j < n" by simp
      have "t * n + n \<le> length (trials X) * n"
        using t mult_le_mono1[of "Suc t" "length (trials X)" n] by simp
      then have "t * n \<le> length (concat (map ?f (trials X)))"
        unfolding len0 by arith
      then have "take n (drop (t * n) (concat (map ?f (trials X)))) ! j =
            concat (map ?f (trials X)) ! (t * n + j)"
        using j by (simp only: nth_take nth_drop)
      also have "\<dots> = ?f ?t ! j" by (rule concat_nth_uniform[OF lenf t j])
      finally show "take n (drop (t * n) (concat (map ?f (trials X)))) ! j = ?f ?t ! j" .
    qed
    have cx: "crop_X \<lparr>cols = samps X, rows = ?t\<rparr> (int n) W S =
              Inr \<lparr>chans = chans X, samps = nat W, trials = take n (drop (t * n) (trials ?X'))\<rparr>"
      using crop_X_eq[OF wfA W0 S0, of n] nv(2) lent blk by simp
    have el: "trials ?X' ! (t * n + i) ! c ! k = ?t ! c ! (i * nat S + k)"
      if c: "c < chans X" and k: "k < nat W" for c k
    proof -
      have "trials ?X' ! (t * n + i) = ?f ?t ! i"
        using concat_nth_uniform[OF lenf t i] by simp
      also have "\<dots> = window ?t (nat W) (nat S) i" using i by (simp add: windows_def)
      finally have "trials ?X' ! (t * n + i) ! c ! k = window ?t (nat W) (nat S) i ! c ! k"
        by simp
      also have "\<dots> = ?t ! c ! (i * nat S + k)"
      proof (rule window_nth)
        show "c < length ?t" using c lent by simp
        show "k < nat W" by (rule k)
        have "?t ! c \<in> set ?t" using c lent by simp
        then have "length (?t ! c) = samps X" using rowlen by simp
        then show "i * nat S + nat W \<le> length (?t ! c)" using inb_nat[OF i] by simp
      qed
      finally show ?thesis .
    qed
    show ?thesis using inb_nat[OF i] cx el by blast
  qed
  show ?thesis
    apply (rule exI[of _ n], rule exI[of _ ?X'], rule exI[of _ ?y'])
    using nv(1) ceil cxy len wfX' per by simp
qed

theorem crop_count_and_windows_witness:
  "n_crops_of 5 3 2 = Inr 2
   \<and> (\<exists>X' y'. crop_X_y \<lparr>chans = 1, samps = 5, trials = [[[1, 2, 3, 4, 5 :: int]]]\<rparr> [7 :: int] 3 2
                 = Inr (X', y')
        \<and> length (trials X') = 2 \<and> samps X' = 3 \<and> trials X' ! 1 ! 0 ! 2 = 5)"
proof -
  let ?X = "\<lparr>chans = 1, samps = 5, trials = [[[1, 2, 3, 4, 5 :: int]]]\<rparr>"
  have h1: "wf3 ?X" by (simp add: wf3_def)
  have h2: "(0::int) < 3" and h3: "(3::int) \<le> int (samps ?X)" and h4: "(0::int) < 2"
    and h5: "length [7 :: int] = length (trials ?X)" by simp_all
  from crop_count_and_windows[OF h1 h2 h3 h4 h5]
  obtain n X' y' where
    a: "n_crops_of (samps ?X) 3 2 = Inr (int n)"
       "int n = \<lceil>real_of_int (int (samps ?X) - 3 + 1) / real_of_int 2\<rceil>"
       "crop_X_y ?X [7 :: int] 3 2 = Inr (X', y')"
       "length (trials X') = length (trials ?X) * n" "samps X' = nat 3"
    and b: "\<forall>t < length (trials ?X). \<forall>i < n.
              (\<forall>c < chans ?X. \<forall>k < nat 3.
                 trials X' ! (t * n + i) ! c ! k = trials ?X ! t ! c ! (i * nat 2 + k))"
    by blast
  have "\<lceil>real_of_int (int (samps ?X) - 3 + 1) / real_of_int 2\<rceil> = 2"
    by (simp add: ceiling_divide_eq_div)
  then have n: "n = 2" using a(2) by simp
  have "trials X' ! (0 * n + 1) ! 0 ! 2 = trials ?X ! 0 ! 0 ! (1 * nat 2 + 2)"
    using b n by simp
  then have e: "trials X' ! 1 ! 0 ! 2 = 5" by (simp add: n)
  show ?thesis using a n e by auto
qed

section \<open>Labels of the crops\<close>

lemma crop_X_y_valid:
  fixes X :: "('a::zero) arr3" and ys :: "('l::zero) list"
  assumes "wf3 X" "0 < W" "W \<le> int (samps X)" "0 < S" "length ys = length (trials X)"
  shows "crop_X_y X ys W S =
         Inr (\<lparr>chans = chans X, samps = nat W,
               trials = concat (map (\<lambda>t. windows t (crops_of (samps X) W S) (nat W) (nat S))
                                (trials X))\<rparr>,
              concat (map (replicate (crops_of (samps X) W S)) ys))"
proof -
  note nv = n_crops_valid[OF assms(2,3,4), folded crops_of_def]
  have W0: "0 \<le> W" and S0: "0 \<le> S" using assms by simp_all
  show ?thesis
    using crop_X_y_eq[OF assms(1) W0 S0 nv(1) nv(2), where ys = ys] assms(5) by simp
qed

text \<open>
  C4. In the output of \<open>crop_X_y\<close> (which \<open>make_crops\<close> applies to each of the three
  partitions) for a valid geometry, the blocks follow the trial order: position
  \<open>t * n + j\<close> holds crop \<open>j\<close> of trial \<open>t\<close> and the label of trial \<open>t\<close>, for every trial
  \<open>t\<close> and every \<open>j < n\<close>.
\<close>

theorem label_replication:
  fixes X :: "('a::zero) arr3" and ys :: "('l::zero) list"
  assumes "wf3 X" "0 < W" "W \<le> int (samps X)" "0 < S" "length ys = length (trials X)"
  shows "\<exists>n X' y'.
           n_crops_of (samps X) W S = Inr (int n) \<and> 0 < n
         \<and> crop_X_y X ys W S = Inr (X', y')
         \<and> length (trials X') = length ys * n \<and> length y' = length ys * n
         \<and> (\<forall>t < length ys. \<forall>j < n.
               y' ! (t * n + j) = ys ! t
             \<and> trials X' ! (t * n + j) = window (trials X ! t) (nat W) (nat S) j)"
proof -
  define n where "n = crops_of (samps X) W S"
  let ?f = "\<lambda>t. windows t n (nat W) (nat S)"
  let ?X' = "\<lparr>chans = chans X, samps = nat W, trials = concat (map ?f (trials X))\<rparr>"
  let ?y' = "concat (map (replicate n) ys)"
  note nv = n_crops_valid[OF assms(2,3,4), folded crops_of_def, folded n_def]
  have cxy: "crop_X_y X ys W S = Inr (?X', ?y')"
    using crop_X_y_valid[OF assms] by (simp add: n_def)
  have lenf: "\<forall>t \<in> set (trials X). length (?f t) = n" by (simp add: length_windows)
  have lenr: "\<forall>l \<in> set ys. length (replicate n l) = n" by simp
  have lx: "length (trials ?X') = length ys * n"
    using length_concat_uniform[OF lenf] assms(5) by simp
  have ly: "length ?y' = length ys * n"
    using length_concat_uniform[OF lenr] by simp
  have el: "?y' ! (t * n + j) = ys ! t
          \<and> trials ?X' ! (t * n + j) = window (trials X ! t) (nat W) (nat S) j"
    if t: "t < length ys" and j: "j < n" for t j
  proof -
    have "?y' ! (t * n + j) = replicate n (ys ! t) ! j"
      by (rule concat_nth_uniform[OF lenr t j])
    then have a: "?y' ! (t * n + j) = ys ! t" using j by simp
    have t': "t < length (trials X)" using t assms(5) by simp
    have "concat (map ?f (trials X)) ! (t * n + j) = ?f (trials X ! t) ! j"
      by (rule concat_nth_uniform[OF lenf t' j])
    then have b: "trials ?X' ! (t * n + j) = window (trials X ! t) (nat W) (nat S) j"
      using j by (simp add: windows_def)
    show ?thesis using a b by simp
  qed
  show ?thesis
    apply (rule exI[of _ n], rule exI[of _ ?X'], rule exI[of _ ?y'])
    using nv(1) nv(3) cxy lx ly el by simp
qed

theorem label_replication_witness:
  "\<exists>X' y'.
     crop_X_y \<lparr>chans = 1, samps = 3, trials = [[[1, 2, 3]], [[4, 5, 6 :: int]]]\<rparr> [8, 9 :: int] 2 1
       = Inr (X', y')
   \<and> length y' = 4 \<and> y' ! 1 = 8 \<and> y' ! 2 = 9 \<and> trials X' ! 3 = [[5, 6]]"
proof -
  let ?X = "\<lparr>chans = 1, samps = 3, trials = [[[1, 2, 3]], [[4, 5, 6 :: int]]]\<rparr>"
  have h1: "wf3 ?X" by (simp add: wf3_def)
  have h2: "(0::int) < 2" and h3: "(2::int) \<le> int (samps ?X)" and h4: "(0::int) < 1"
    and h5: "length [8, 9 :: int] = length (trials ?X)" by simp_all
  from label_replication[OF h1 h2 h3 h4 h5]
  obtain n X' y' where
    a: "n_crops_of (samps ?X) 2 1 = Inr (int n)" "crop_X_y ?X [8, 9 :: int] 2 1 = Inr (X', y')"
       "length y' = length [8, 9 :: int] * n"
    and b: "\<forall>t < length [8, 9 :: int]. \<forall>j < n. y' ! (t * n + j) = [8, 9 :: int] ! t
              \<and> trials X' ! (t * n + j) = window (trials ?X ! t) (nat 2) (nat 1) j"
    by blast
  have n: "n = 2" using a(1) by (simp add: n_crops_of_def)
  have e1: "y' ! 1 = 8" using b[rule_format, of 0 1] n by simp
  have e2: "y' ! 2 = 9" using b[rule_format, of 1 0] n by simp
  have e3: "trials X' ! 3 = [[5, 6]]" using b[rule_format, of 1 1] n by (simp add: window_def)
  show ?thesis using a n e1 e2 e3 by simp
qed

section \<open>Geometries that are not valid\<close>

lemma crop_X_y_zero_count:
  fixes X :: "('a::zero) arr3" and ys :: "('l::zero) list"
  assumes "wf3 X" "0 \<le> W" "0 < S" "n_crops_of (samps X) W S = Inr 0"
    "length ys = length (trials X)"
  shows "crop_X_y X ys W S = Inr (\<lparr>chans = chans X, samps = nat W, trials = []\<rparr>, [])"
proof -
  have S0: "0 \<le> S" using assms by simp
  have n: "n_crops_of (samps X) W S = Inr (int 0)" using assms(4) by simp
  have "crop_X_y X ys W S =
         Inr (\<lparr>chans = chans X, samps = nat W,
               trials = concat (map (\<lambda>t. windows t 0 (nat W) (nat S)) (trials X))\<rparr>,
              concat (map (replicate 0) (take (length (trials X)) ys)))"
    by (rule crop_X_y_eq[OF assms(1) assms(2) S0 n]) (simp_all add: assms(5))
  then show ?thesis by (simp add: windows_def)
qed

lemma n_crops_past_end:
  assumes "int L < W" "W \<le> int L + S"
  shows "n_crops_of L W S = Inr 0"
proof -
  have S: "0 < S" using assms by linarith
  let ?a = "int L - W + 1"
  have a: "- S < ?a" "?a \<le> 0" using assms by linarith+
  have "\<lceil>real_of_int ?a / real_of_int S\<rceil> = 0"
  proof (rule ceiling_unique)
    have "- real_of_int S < real_of_int ?a" using a(1) by linarith
    then show "real_of_int 0 - 1 < real_of_int ?a / real_of_int S"
      using S by (simp add: pos_less_divide_eq)
    have "real_of_int ?a \<le> 0" using a(2) by linarith
    then show "real_of_int ?a / real_of_int S \<le> real_of_int 0"
      using S by (simp add: pos_divide_le_eq)
  qed
  then show ?thesis using S by (simp add: n_crops_of_def)
qed

text \<open>
  C6, as the code has it. Nothing validates the geometry and there is no geometry
  exception. A stride of 0 raises ZeroDivisionError at the division; a negative window
  with a nonzero stride raises ValueError at the allocation; with \<open>0 < S\<close> and
  \<open>L < W \<le> L + S\<close> the count is 0 and \<open>crop_X_y\<close> returns empty arrays; for a valid
  geometry the count is positive and \<open>crop_X_y\<close> returns.
\<close>

theorem crop_geometry_unvalidated:
  fixes X :: "('a::zero) arr3" and ys :: "('l::zero) list"
  assumes "wf3 X" "length ys = length (trials X)"
  shows "(S = 0 \<longrightarrow> crop_X_y X ys W S = Inl ZeroDivisionError)
       \<and> (S \<noteq> 0 \<and> W < 0 \<longrightarrow> crop_X_y X ys W S = Inl ValueError)
       \<and> (0 < S \<and> int (samps X) < W \<and> W \<le> int (samps X) + S \<longrightarrow>
            crop_X_y X ys W S = Inr (\<lparr>chans = chans X, samps = nat W, trials = []\<rparr>, []))
       \<and> (0 < S \<and> 0 < W \<and> W \<le> int (samps X) \<longrightarrow>
            (\<exists>n. 0 < n \<and> n_crops_of (samps X) W S = Inr n) \<and> (\<exists>r. crop_X_y X ys W S = Inr r))"
proof (intro conjI impI)
  assume "S = 0"
  then show "crop_X_y X ys W S = Inl ZeroDivisionError"
    by (simp add: crop_X_y_def n_crops_of_def)
next
  assume "S \<noteq> 0 \<and> W < 0"
  then show "crop_X_y X ys W S = Inl ValueError"
    by (simp add: crop_X_y_def n_crops_of_def zeros3_def)
next
  assume a: "0 < S \<and> int (samps X) < W \<and> W \<le> int (samps X) + S"
  then have n0: "n_crops_of (samps X) W S = Inr 0" by (simp add: n_crops_past_end)
  have W0: "0 \<le> W" using a by linarith
  show "crop_X_y X ys W S = Inr (\<lparr>chans = chans X, samps = nat W, trials = []\<rparr>, [])"
    using crop_X_y_zero_count[OF assms(1) W0 _ n0 assms(2)] a by simp
next
  assume a: "0 < S \<and> 0 < W \<and> W \<le> int (samps X)"
  then have h: "0 < W" "W \<le> int (samps X)" "0 < S" by simp_all
  note nv = n_crops_valid[OF h]
  show "\<exists>n. 0 < n \<and> n_crops_of (samps X) W S = Inr n"
    using nv(1) nv(3) by (intro exI[of _ "int (nat ((int (samps X) - W) div S + 1))"]) simp
next
  assume a: "0 < S \<and> 0 < W \<and> W \<le> int (samps X)"
  then have h: "0 < W" "W \<le> int (samps X)" "0 < S" by simp_all
  show "\<exists>r. crop_X_y X ys W S = Inr r"
    using crop_X_y_valid[OF assms(1) h assms(2)] by blast
qed

theorem crop_geometry_unvalidated_witness:
  "crop_X_y \<lparr>chans = 1, samps = 2, trials = [[[1, 2 :: int]]]\<rparr> [7 :: int] 2 0
     = Inl ZeroDivisionError
   \<and> crop_X_y \<lparr>chans = 1, samps = 2, trials = [[[1, 2 :: int]]]\<rparr> [7 :: int] (- 1) 1
     = Inl ValueError
   \<and> crop_X_y \<lparr>chans = 1, samps = 2, trials = [[[1, 2 :: int]]]\<rparr> [7 :: int] 4 2
     = Inr (\<lparr>chans = 1, samps = 4, trials = []\<rparr>, [])
   \<and> (\<exists>r. crop_X_y \<lparr>chans = 1, samps = 2, trials = [[[1, 2 :: int]]]\<rparr> [7 :: int] 1 1 = Inr r)"
proof -
  let ?X = "\<lparr>chans = 1, samps = 2, trials = [[[1, 2 :: int]]]\<rparr>"
  have h1: "wf3 ?X" by (simp add: wf3_def)
  have h2: "length [7 :: int] = length (trials ?X)" by simp
  show ?thesis
    using crop_geometry_unvalidated[OF h1 h2, of 0 2]
      crop_geometry_unvalidated[OF h1 h2, of 1 "- 1"]
      crop_geometry_unvalidated[OF h1 h2, of 2 4]
      crop_geometry_unvalidated[OF h1 h2, of 1 1]
    by simp
qed

text \<open>
  The claim as stated fails: a window one sample longer than the trial is accepted, and
  the result has no crops.
\<close>

theorem crop_window_past_end_counterexample:
  "crop_X_y \<lparr>chans = 1, samps = 2, trials = [[[1, 2 :: int]]]\<rparr> [7 :: int] 3 1
     = Inr (\<lparr>chans = 1, samps = 3, trials = []\<rparr>, [])"
  by (simp add: crop_X_y_def n_crops_of_def zeros3_def crop_X_y_loop.simps trial_at_def
      crop_X_def crop_X_loop.simps assign_slice3_def assign_slice1_def slice_idx_def bc_ok_def
      expand_def label_at_def crop_y_def)

section \<open>Calling \<open>make_crops\<close> again\<close>

lemma wf3_crop_result:
  assumes "wf3 X" "0 < W" "W \<le> int (samps X)" "0 < S"
  shows "wf3 \<lparr>chans = chans X, samps = nat W,
              trials = concat (map (\<lambda>t. windows t (crops_of (samps X) W S) (nat W) (nat S))
                               (trials X))\<rparr>"
proof -
  note nv = n_crops_valid[OF assms(2,3,4), folded crops_of_def]
  have inb_nat: "j * nat S + nat W \<le> samps X" if "j < crops_of (samps X) W S" for j
  proof -
    have "int j * S + W \<le> int (samps X)" using nv(2) that by simp
    moreover have "int (j * nat S + nat W) = int j * S + W" using assms by simp
    ultimately show ?thesis by linarith
  qed
  show ?thesis
    using assms(1) by (auto simp: wf3_def windows_def window_def dest!: inb_nat)
qed

lemma crops_of_exact: "0 < W \<Longrightarrow> 0 < S \<Longrightarrow> crops_of (nat W) W S = 1"
  by (simp add: crops_of_def)

lemma crop_X_y_again:
  fixes X :: "('a::zero) arr3" and ys :: "('l::zero) list"
  assumes "wf3 X" "samps X = nat W" "0 < W" "0 < S" "length ys = length (trials X)"
  shows "crop_X_y X ys W S = Inr (X, ys)"
proof -
  have le: "W \<le> int (samps X)" using assms by simp
  have one: "crops_of (samps X) W S = 1" using assms by (simp add: crops_of_exact)
  have w: "windows t 1 (nat W) (nat S) = [t]" if "t \<in> set (trials X)" for t
  proof -
    have "\<forall>r \<in> set t. length r = nat W" using assms(1,2) that by (simp add: wf3_def)
    then have "map (\<lambda>r. take (nat W) (drop (0 * nat S) r)) t = t"
      by (intro map_idI) simp
    then show ?thesis by (simp add: windows_def window_def)
  qed
  have "concat (map (\<lambda>t. windows t 1 (nat W) (nat S)) (trials X)) =
        concat (map (\<lambda>t. [t]) (trials X))"
    using w by (intro arg_cong[where f = concat] map_cong) simp_all
  then have cx: "concat (map (\<lambda>t. windows t 1 (nat W) (nat S)) (trials X)) = trials X"
    by simp
  have cy: "concat (map (replicate 1) ys) = ys" by (induction ys) simp_all
  have rec: "\<lparr>chans = chans X, samps = nat W, trials = trials X\<rparr> = X"
    using assms(2) by simp
  have "crop_X_y X ys W S = Inr (\<lparr>chans = chans X, samps = nat W, trials = trials X\<rparr>, ys)"
    using crop_X_y_valid[OF assms(1) assms(3) le assms(4) assms(5)]
    by (simp only: one cx cy)
  then show ?thesis by (simp only: rec)
qed

lemma length_crop_trials:
  "length (concat (map (\<lambda>t. windows t n W S) ts)) = length ts * n"
  by (rule length_concat_uniform) (simp add: length_windows)

lemma length_crop_labels: "length (concat (map (replicate n) ys)) = length ys * n"
  by (rule length_concat_uniform) simp

text \<open>
  C8, as the code has it. \<open>make_crops\<close> keeps no record of having run. On a well-formed
  dataset and a valid geometry the first call returns the dataset in which each of the
  three partitions is replaced by its windows, trial after trial, and by its labels, each
  repeated once per window; a second call with the same geometry treats every crop as a
  trial of \<open>W\<close> samples, takes one window from each, and returns that dataset unchanged.
\<close>

theorem make_crops_second_call:
  fixes ds :: "(('a::zero), int list) EEGDataset"
  assumes "wf3 (X_train ds)" "wf3 (X_valid ds)" "wf3 (X_test ds)"
    and "length (y_train ds) = length (trials (X_train ds))"
    and "length (y_valid ds) = length (trials (X_valid ds))"
    and "length (y_test ds) = length (trials (X_test ds))"
    and "0 < W" "0 < S"
    and "W \<le> int (samps (X_train ds))" "W \<le> int (samps (X_valid ds))"
        "W \<le> int (samps (X_test ds))"
  shows "make_crops ds (Some W) S =
           Inr \<lparr>X_train =
                  \<lparr>chans = chans (X_train ds), samps = nat W,
                   trials = concat (map (\<lambda>t. windows t (crops_of (samps (X_train ds)) W S)
                                                 (nat W) (nat S))
                                        (trials (X_train ds)))\<rparr>,
                y_train = concat (map (replicate (crops_of (samps (X_train ds)) W S))
                                      (y_train ds)),
                X_valid =
                  \<lparr>chans = chans (X_valid ds), samps = nat W,
                   trials = concat (map (\<lambda>t. windows t (crops_of (samps (X_valid ds)) W S)
                                                 (nat W) (nat S))
                                        (trials (X_valid ds)))\<rparr>,
                y_valid = concat (map (replicate (crops_of (samps (X_valid ds)) W S))
                                      (y_valid ds)),
                X_test =
                  \<lparr>chans = chans (X_test ds), samps = nat W,
                   trials = concat (map (\<lambda>t. windows t (crops_of (samps (X_test ds)) W S)
                                                 (nat W) (nat S))
                                        (trials (X_test ds)))\<rparr>,
                y_test = concat (map (replicate (crops_of (samps (X_test ds)) W S))
                                     (y_test ds))\<rparr>
       \<and> (\<forall>ds1. make_crops ds (Some W) S = Inr ds1 \<longrightarrow> make_crops ds1 (Some W) S = Inr ds1)
       \<and> (\<forall>ds1. make_crops ds (Some W) S = Inr ds1 \<longrightarrow>
             length (trials (X_train ds1))
               = length (trials (X_train ds)) * crops_of (samps (X_train ds)) W S
           \<and> length (trials (X_valid ds1))
               = length (trials (X_valid ds)) * crops_of (samps (X_valid ds)) W S
           \<and> length (trials (X_test ds1))
               = length (trials (X_test ds)) * crops_of (samps (X_test ds)) W S)"
proof -
  let ?P = "\<lambda>X ys. (\<lparr>chans = chans X, samps = nat W,
               trials = concat (map (\<lambda>t. windows t (crops_of (samps X) W S) (nat W) (nat S))
                                (trials X))\<rparr>,
              concat (map (replicate (crops_of (samps X) W S)) ys))"
  let ?tr = "?P (X_train ds) (y_train ds)"
  let ?va = "?P (X_valid ds) (y_valid ds)"
  let ?te = "?P (X_test ds) (y_test ds)"
  let ?ds1 = "\<lparr>X_train = fst ?tr, y_train = snd ?tr, X_valid = fst ?va, y_valid = snd ?va,
              X_test = fst ?te, y_test = snd ?te\<rparr>"
  have c1: "crop_X_y (X_train ds) (y_train ds) W S = Inr ?tr"
    by (rule crop_X_y_valid[OF assms(1) assms(7) assms(9) assms(8) assms(4)])
  have c2: "crop_X_y (X_valid ds) (y_valid ds) W S = Inr ?va"
    by (rule crop_X_y_valid[OF assms(2) assms(7) assms(10) assms(8) assms(5)])
  have c3: "crop_X_y (X_test ds) (y_test ds) W S = Inr ?te"
    by (rule crop_X_y_valid[OF assms(3) assms(7) assms(11) assms(8) assms(6)])
  have first: "make_crops ds (Some W) S = Inr ?ds1"
    by (simp add: make_crops_def c1 c2 c3)
  have len: "length (snd (?P X ys)) = length (trials (fst (?P X ys)))"
    if "length ys = length (trials X)" for X :: "'a arr3" and ys :: "int list"
    using that by (simp add: length_crop_trials length_crop_labels)
  have d1: "crop_X_y (fst ?tr) (snd ?tr) W S = Inr (fst ?tr, snd ?tr)"
    apply (rule crop_X_y_again)
    using wf3_crop_result[OF assms(1) assms(7) assms(9) assms(8)] len[OF assms(4)] assms(7,8)
    by simp_all
  have d2: "crop_X_y (fst ?va) (snd ?va) W S = Inr (fst ?va, snd ?va)"
    apply (rule crop_X_y_again)
    using wf3_crop_result[OF assms(2) assms(7) assms(10) assms(8)] len[OF assms(5)] assms(7,8)
    by simp_all
  have d3: "crop_X_y (fst ?te) (snd ?te) W S = Inr (fst ?te, snd ?te)"
    apply (rule crop_X_y_again)
    using wf3_crop_result[OF assms(3) assms(7) assms(11) assms(8)] len[OF assms(6)] assms(7,8)
    by simp_all
  have second: "make_crops ?ds1 (Some W) S = Inr ?ds1"
    using d1 d2 d3 by (simp add: make_crops_def)
  have cnt: "length (trials (X_train ?ds1))
               = length (trials (X_train ds)) * crops_of (samps (X_train ds)) W S
           \<and> length (trials (X_valid ?ds1))
               = length (trials (X_valid ds)) * crops_of (samps (X_valid ds)) W S
           \<and> length (trials (X_test ?ds1))
               = length (trials (X_test ds)) * crops_of (samps (X_test ds)) W S"
    by (simp add: length_crop_trials)
  have a: "make_crops ds (Some W) S = Inr ?ds1" by (rule first)
  have b: "\<forall>ds1. make_crops ds (Some W) S = Inr ds1 \<longrightarrow> make_crops ds1 (Some W) S = Inr ds1"
    using first second by simp
  have c: "\<forall>ds1. make_crops ds (Some W) S = Inr ds1 \<longrightarrow>
             length (trials (X_train ds1))
               = length (trials (X_train ds)) * crops_of (samps (X_train ds)) W S
           \<and> length (trials (X_valid ds1))
               = length (trials (X_valid ds)) * crops_of (samps (X_valid ds)) W S
           \<and> length (trials (X_test ds1))
               = length (trials (X_test ds)) * crops_of (samps (X_test ds)) W S"
    using first cnt by simp
  from a have a': "make_crops ds (Some W) S =
           Inr \<lparr>X_train =
                  \<lparr>chans = chans (X_train ds), samps = nat W,
                   trials = concat (map (\<lambda>t. windows t (crops_of (samps (X_train ds)) W S)
                                                 (nat W) (nat S))
                                        (trials (X_train ds)))\<rparr>,
                y_train = concat (map (replicate (crops_of (samps (X_train ds)) W S))
                                      (y_train ds)),
                X_valid =
                  \<lparr>chans = chans (X_valid ds), samps = nat W,
                   trials = concat (map (\<lambda>t. windows t (crops_of (samps (X_valid ds)) W S)
                                                 (nat W) (nat S))
                                        (trials (X_valid ds)))\<rparr>,
                y_valid = concat (map (replicate (crops_of (samps (X_valid ds)) W S))
                                      (y_valid ds)),
                X_test =
                  \<lparr>chans = chans (X_test ds), samps = nat W,
                   trials = concat (map (\<lambda>t. windows t (crops_of (samps (X_test ds)) W S)
                                                 (nat W) (nat S))
                                        (trials (X_test ds)))\<rparr>,
                y_test = concat (map (replicate (crops_of (samps (X_test ds)) W S))
                                     (y_test ds))\<rparr>"
    by simp
  show ?thesis using a' b c by (intro conjI)
qed

theorem make_crops_second_call_witness:
  "make_crops
      \<lparr>X_train = \<lparr>chans = 1, samps = 3, trials = [[[1, 2, 3 :: int]]]\<rparr>, y_train = [5],
       X_valid = \<lparr>chans = 1, samps = 3, trials = [[[4, 5, 6]]]\<rparr>, y_valid = [6],
       X_test = \<lparr>chans = 1, samps = 3, trials = [[[7, 8, 9]]]\<rparr>, y_test = [7]\<rparr> (Some 2) 1
   = Inr \<lparr>X_train = \<lparr>chans = 1, samps = 2, trials = [[[1, 2]], [[2, 3]]]\<rparr>, y_train = [5, 5],
       X_valid = \<lparr>chans = 1, samps = 2, trials = [[[4, 5]], [[5, 6]]]\<rparr>, y_valid = [6, 6],
       X_test = \<lparr>chans = 1, samps = 2, trials = [[[7, 8]], [[8, 9]]]\<rparr>, y_test = [7, 7]\<rparr>
   \<and> make_crops
      \<lparr>X_train = \<lparr>chans = 1, samps = 2, trials = [[[1, 2 :: int]], [[2, 3]]]\<rparr>, y_train = [5, 5],
       X_valid = \<lparr>chans = 1, samps = 2, trials = [[[4, 5]], [[5, 6]]]\<rparr>, y_valid = [6, 6],
       X_test = \<lparr>chans = 1, samps = 2, trials = [[[7, 8]], [[8, 9]]]\<rparr>, y_test = [7, 7]\<rparr> (Some 2) 1
   = Inr \<lparr>X_train = \<lparr>chans = 1, samps = 2, trials = [[[1, 2]], [[2, 3]]]\<rparr>, y_train = [5, 5],
       X_valid = \<lparr>chans = 1, samps = 2, trials = [[[4, 5]], [[5, 6]]]\<rparr>, y_valid = [6, 6],
       X_test = \<lparr>chans = 1, samps = 2, trials = [[[7, 8]], [[8, 9]]]\<rparr>, y_test = [7, 7]\<rparr>"
proof -
  let ?ds = "\<lparr>X_train = \<lparr>chans = 1, samps = 3, trials = [[[1, 2, 3 :: int]]]\<rparr>, y_train = [5],
       X_valid = \<lparr>chans = 1, samps = 3, trials = [[[4, 5, 6]]]\<rparr>, y_valid = [6],
       X_test = \<lparr>chans = 1, samps = 3, trials = [[[7, 8, 9]]]\<rparr>, y_test = [7]\<rparr>
       :: (int, int list) EEGDataset"
  let ?ds1 = "\<lparr>X_train = \<lparr>chans = 1, samps = 2, trials = [[[1, 2 :: int]], [[2, 3]]]\<rparr>,
       y_train = [5, 5],
       X_valid = \<lparr>chans = 1, samps = 2, trials = [[[4, 5]], [[5, 6]]]\<rparr>, y_valid = [6, 6],
       X_test = \<lparr>chans = 1, samps = 2, trials = [[[7, 8]], [[8, 9]]]\<rparr>, y_test = [7, 7]\<rparr>
       :: (int, int list) EEGDataset"
  have t: "make_crops ?ds (Some 2) 1 = Inr ?ds1
         \<and> (\<forall>ds1. make_crops ?ds (Some 2) 1 = Inr ds1 \<longrightarrow> make_crops ds1 (Some 2) 1 = Inr ds1)"
    using make_crops_second_call[of ?ds 2 1]
    by (simp add: wf3_def crops_of_def windows_def window_def eval_nat_numeral)
  then have "make_crops ?ds1 (Some 2) 1 = Inr ?ds1" by blast
  then show ?thesis using t by simp
qed

text \<open>
  The claim as stated fails: on this dataset, with two channels and one trial in each
  partition, both calls return normally.
\<close>

theorem make_crops_twice_counterexample:
  "make_crops
      \<lparr>X_train = \<lparr>chans = 2, samps = 2, trials = [[[1, 2], [3, 4 :: int]]]\<rparr>, y_train = [0],
       X_valid = \<lparr>chans = 2, samps = 2, trials = [[[5, 6], [7, 8]]]\<rparr>, y_valid = [1],
       X_test = \<lparr>chans = 2, samps = 2, trials = [[[9, 10], [11, 12]]]\<rparr>, y_test = [2]\<rparr>
      (Some 1) 1
   = Inr \<lparr>X_train = \<lparr>chans = 2, samps = 1, trials = [[[1], [3]], [[2], [4]]]\<rparr>,
          y_train = [0, 0],
          X_valid = \<lparr>chans = 2, samps = 1, trials = [[[5], [7]], [[6], [8]]]\<rparr>,
          y_valid = [1, 1],
          X_test = \<lparr>chans = 2, samps = 1, trials = [[[9], [11]], [[10], [12]]]\<rparr>,
          y_test = [2, 2]\<rparr>
   \<and> make_crops
      \<lparr>X_train = \<lparr>chans = 2, samps = 1, trials = [[[1], [3 :: int]], [[2], [4]]]\<rparr>,
       y_train = [0, 0],
       X_valid = \<lparr>chans = 2, samps = 1, trials = [[[5], [7]], [[6], [8]]]\<rparr>,
       y_valid = [1, 1],
       X_test = \<lparr>chans = 2, samps = 1, trials = [[[9], [11]], [[10], [12]]]\<rparr>,
       y_test = [2, 2]\<rparr>
      (Some 1) 1
   = Inr \<lparr>X_train = \<lparr>chans = 2, samps = 1, trials = [[[1], [3]], [[2], [4]]]\<rparr>,
          y_train = [0, 0],
          X_valid = \<lparr>chans = 2, samps = 1, trials = [[[5], [7]], [[6], [8]]]\<rparr>,
          y_valid = [1, 1],
          X_test = \<lparr>chans = 2, samps = 1, trials = [[[9], [11]], [[10], [12]]]\<rparr>,
          y_test = [2, 2]\<rparr>"
  by (simp add: make_crops_def crop_X_y_def n_crops_of_def zeros3_def crop_X_y_loop.simps
      trial_at_def crop_X_def crop_X_loop.simps assign_at_def slice_cols_def py_slice_def
      assign_slice3_def assign_slice1_def slice_idx_def bc_ok_def
      expand_def label_at_def crop_y_def ceiling_divide_eq_div eval_nat_numeral)

section \<open>The temporal split\<close>

lemma arange_nat: "arange 0 (int n) = map int [0..<n]"
proof (induction n)
  case 0
  then show ?case by (simp add: arange_def)
next
  case (Suc n)
  have "[0..int (Suc n) - 1] = [0..int n - 1] @ [int n]"
    by (simp add: upto_rec2)
  then show ?case using Suc by (simp add: arange_def)
qed

lemma arange_0_3: "arange 0 3 = [0, 1, 2]"
  using arange_nat[of 3] by (simp add: upt_rec)

lemma py_slice_nonneg:
  "0 \<le> a \<Longrightarrow> 0 \<le> b \<Longrightarrow> py_slice xs a b = drop (nat a) (take (nat b) xs)"
  by (simp add: py_slice_def slice_idx_def Let_def drop_take min_def)

lemma py_slice_from_neg:
  "0 < t \<Longrightarrow> py_slice_from xs (- t) = drop (length xs - nat t) xs"
  by (simp add: py_slice_from_def slice_idx_def max_def nat_diff_distrib' )

lemma py_slice_from_zero: "py_slice_from xs (- 0) = xs"
  by (simp add: py_slice_from_def slice_idx_def)

lemma set_py_slice: "set (py_slice xs a b) \<subseteq> set xs"
  unfolding py_slice_def Let_def
  by (meson set_take_subset set_drop_subset subset_trans)

lemma set_py_slice_from: "set (py_slice_from xs a) \<subseteq> set xs"
  unfolding py_slice_from_def by (rule set_drop_subset)

lemma fancy_in_range:
  assumes "set idx \<subseteq> set (arange 0 (int (length xs)))"
  shows "fancy xs idx = Inr (map (\<lambda>i. xs ! nat i) idx)"
proof -
  have r: "\<forall>i \<in> set idx. 0 \<le> i \<and> i < int (length xs)"
    using assms by (auto simp: arange_nat)
  then have "\<forall>i \<in> set idx. - int (length xs) \<le> i \<and> i < int (length xs)" by auto
  moreover have "map (\<lambda>i. xs ! nat (if i < 0 then i + int (length xs) else i)) idx =
                 map (\<lambda>i. xs ! nat i) idx"
    using r by (intro map_cong) auto
  ultimately show ?thesis by (simp add: fancy_def)
qed

lemma map_nth_drop_take:
  "m \<le> length xs \<Longrightarrow> map (\<lambda>i. xs ! nat i) (map int [a..<m]) = drop a (take m xs)"
proof -
  assume m: "m \<le> length xs"
  have "map (\<lambda>i. xs ! nat i) (map int [a..<m]) = map ((!) xs) [a..<m]" by (simp add: comp_def)
  also have "\<dots> = drop a (take m xs)"
  proof (rule nth_equalityI)
    show "length (map ((!) xs) [a..<m]) = length (drop a (take m xs))" using m by simp
  next
    fix i assume "i < length (map ((!) xs) [a..<m])"
    then show "map ((!) xs) [a..<m] ! i = drop a (take m xs) ! i" using m by simp
  qed
  finally show ?thesis .
qed

lemma sub_arange:
  "drop a (take b (arange 0 (int n))) = map int [a..<min b n]"
  by (simp add: arange_nat take_map drop_map take_upt drop_upt min_def)

lemma fancy_sub:
  assumes "m \<le> length xs"
  shows "fancy xs (map int [a..<m]) = Inr (drop a (take m xs))"
proof -
  have "set (map int [a..<m]) \<subseteq> set (arange 0 (int (length xs)))"
    using assms by (auto simp: arange_nat)
  from fancy_in_range[OF this] show ?thesis
    using map_nth_drop_take[OF assms] by simp
qed

lemma fancy3_sub:
  assumes "m \<le> length (trials X)"
  shows "fancy3 X (map int [a..<m]) = Inr (X\<lparr>trials := drop a (take m (trials X))\<rparr>)"
  by (simp add: fancy3_def fancy_sub[OF assms])

lemma index_windows_eq:
  assumes "0 \<le> vl" "vl \<le> trl"
  shows "train_indexes tot (trl - vl) = map int [0..<min (nat (trl - vl)) tot]"
    and "valid_indexes tot (trl - vl) vl = map int [nat (trl - vl)..<min (nat trl) tot]"
proof -
  have t0: "0 \<le> trl - vl" and t1: "0 \<le> trl" using assms by simp_all
  show "train_indexes tot (trl - vl) = map int [0..<min (nat (trl - vl)) tot]"
    using t0 sub_arange[of 0 "nat (trl - vl)" tot]
    by (simp add: train_indexes_def py_slice_nonneg)
  have "py_slice (arange 0 (int tot)) (trl - vl) (trl - vl + vl) =
        drop (nat (trl - vl)) (take (nat trl) (arange 0 (int tot)))"
    using t0 t1 by (simp add: py_slice_nonneg)
  then show "valid_indexes tot (trl - vl) vl = map int [nat (trl - vl)..<min (nat trl) tot]"
    using sub_arange[of "nat (trl - vl)" "nat trl" tot]
    by (simp add: valid_indexes_def)
qed

lemma valid_len_exact_bounds:
  assumes "0 \<le> trl" "0 \<le> fr" "fr \<le> 1"
  shows "0 \<le> valid_len_of exact_mul trl fr" and "valid_len_of exact_mul trl fr \<le> trl"
proof -
  have "0 \<le> real_of_int trl * fr" using assms by simp
  then show "0 \<le> valid_len_of exact_mul trl fr" by (simp add: valid_len_of_def exact_mul_def)
  have "real_of_int trl * fr \<le> real_of_int trl * 1"
    using assms by (intro mult_left_mono) simp_all
  then have "\<lfloor>real_of_int trl * fr\<rfloor> \<le> \<lfloor>real_of_int trl\<rfloor>" by (intro floor_mono) simp
  then show "valid_len_of exact_mul trl fr \<le> trl" by (simp add: valid_len_of_def exact_mul_def)
qed

lemma test_indexes_eq:
  "0 < te \<Longrightarrow> test_indexes tot te = map int [tot - nat te..<tot]"
  using sub_arange[of "tot - nat te" tot tot]
  by (simp add: test_indexes_def py_slice_from_neg arange_nat drop_map drop_upt)

lemma test_indexes_zero: "test_indexes tot 0 = map int [0..<tot]"
  using py_slice_from_zero[of "arange 0 (int tot)"]
  by (simp add: test_indexes_def arange_nat)

lemma from_epo_to_dataset_split:
  assumes len: "length (trials (epo_X e)) = length (epo_y e)"
    and vl: "vl = valid_len_of float_mul trl fr" "0 \<le> vl" "vl \<le> trl" and te: "0 < te"
  shows "from_epo_to_dataset float_mul e trl te fr =
     Inr \<lparr>X_train = (epo_X e)\<lparr>trials := take (nat (trl - vl)) (trials (epo_X e))\<rparr>,
          y_train = take (nat (trl - vl)) (epo_y e),
          X_valid = (epo_X e)\<lparr>trials := drop (nat (trl - vl))
                                          (take (nat trl) (trials (epo_X e)))\<rparr>,
          y_valid = drop (nat (trl - vl)) (take (nat trl) (epo_y e)),
          X_test = (epo_X e)\<lparr>trials := drop (length (epo_y e) - nat te) (trials (epo_X e))\<rparr>,
          y_test = drop (length (epo_y e) - nat te) (epo_y e)\<rparr>"
proof -
  let ?tot = "length (epo_y e)"
  let ?a = "nat (trl - vl)"
  note ti = index_windows_eq[OF vl(2,3), where tot = ?tot]
  have m1: "min ?a ?tot \<le> length (trials (epo_X e))" "min ?a ?tot \<le> length (epo_y e)"
    and m2: "min (nat trl) ?tot \<le> length (trials (epo_X e))" "min (nat trl) ?tot \<le> length (epo_y e)"
    and m3: "?tot \<le> length (trials (epo_X e))" "?tot \<le> length (epo_y e)"
    using len by simp_all
  have tk: "take (min k ?tot) (trials (epo_X e)) = take k (trials (epo_X e))"
           "take (min k ?tot) (epo_y e) = take k (epo_y e)" for k
    using len by (simp_all add: min_def)
  show ?thesis
    unfolding from_epo_to_dataset_def Let_def vl(1)[symmetric] ti(1) ti(2)
      test_indexes_eq[OF te]
    by (simp add: fancy3_sub[OF m1(1)] fancy_sub[OF m1(2)] fancy3_sub[OF m2(1)] fancy_sub[OF m2(2)]
        fancy3_sub[OF m3(1)] fancy_sub[OF m3(2)] tk EEGDataset_init_def len)
qed

lemma from_epo_to_dataset_total:
  assumes len: "length (trials (epo_X e)) = length (epo_y e)"
  shows "\<exists>ds. from_epo_to_dataset float_mul e trl te fr = Inr ds"
proof -
  let ?tot = "length (epo_y e)"
  have f: "fancy (epo_y e) idx = Inr (map (\<lambda>i. epo_y e ! nat i) idx)
         \<and> fancy3 (epo_X e) idx = Inr ((epo_X e)\<lparr>trials := map (\<lambda>i. trials (epo_X e) ! nat i) idx\<rparr>)"
    if "set idx \<subseteq> set (arange 0 (int ?tot))" for idx
    using fancy_in_range[of idx "epo_y e"] fancy_in_range[of idx "trials (epo_X e)"] that len
    by (simp add: fancy3_def)
  have s1: "set (train_indexes ?tot a) \<subseteq> set (arange 0 (int ?tot))" for a
    unfolding train_indexes_def by (rule set_py_slice)
  have s2: "set (valid_indexes ?tot a v) \<subseteq> set (arange 0 (int ?tot))" for a v
    unfolding valid_indexes_def by (rule set_py_slice)
  have s3: "set (test_indexes ?tot te) \<subseteq> set (arange 0 (int ?tot))"
    unfolding test_indexes_def by (rule set_py_slice_from)
  show ?thesis
    unfolding from_epo_to_dataset_def Let_def
    by (simp add: f[OF s1] f[OF s2] f[OF s3] EEGDataset_init_def)
qed

text \<open>
  Scenario B of the specification: with a train length of 100, when the float64 product
  with the fraction has floor 10, the adjusted train length is 90 and the index windows
  are \<open>[0, 90)\<close> and \<open>[90, 100)\<close>.
\<close>

lemma scenario_B:
  assumes "valid_len_of float_mul 100 fr = 10"
  shows "100 - valid_len_of float_mul 100 fr = 90"
    and "train_indexes 100 (100 - valid_len_of float_mul 100 fr) = map int [0..<90]"
    and "valid_indexes 100 (100 - valid_len_of float_mul 100 fr) (valid_len_of float_mul 100 fr)
         = map int [90..<100]"
proof -
  show "100 - valid_len_of float_mul 100 fr = 90" using assms by simp
  have h: "(0::int) \<le> 10" "(10::int) \<le> 100" by simp_all
  show "train_indexes 100 (100 - valid_len_of float_mul 100 fr) = map int [0..<90]"
    using index_windows_eq(1)[OF h, of 100] by (simp add: assms)
  show "valid_indexes 100 (100 - valid_len_of float_mul 100 fr) (valid_len_of float_mul 100 fr)
         = map int [90..<100]"
    using index_windows_eq(2)[OF h, of 100] by (simp add: assms)
qed

text \<open>
  C5. With a validation length within \<open>[0, train_len]\<close> and a positive test length,
  \<open>from_epo_to_dataset_split\<close> above shows the three windows in temporal order. With a
  test length of 0 the code does not select the last 0 trials: the slice \<open>indexes[-0:]\<close> is
  \<open>indexes[0:]\<close>, and the test partition receives every trial, those of the train
  partition included.
\<close>

theorem split_zero_test_len:
  "from_epo_to_dataset exact_mul
     \<lparr>epo_X = \<lparr>chans = 1, samps = 1, trials = [[[1 :: int]], [[2]], [[3]]]\<rparr>,
      epo_y = [0, 1, 0]\<rparr> 2 0 0
   = Inr \<lparr>X_train = \<lparr>chans = 1, samps = 1, trials = [[[1]], [[2]]]\<rparr>, y_train = [0, 1],
          X_valid = \<lparr>chans = 1, samps = 1, trials = []\<rparr>, y_valid = [],
          X_test = \<lparr>chans = 1, samps = 1, trials = [[[1]], [[2]], [[3]]]\<rparr>,
          y_test = [0, 1, 0]\<rparr>"
  by (simp add: from_epo_to_dataset_def train_indexes_def valid_indexes_def test_indexes_def
      valid_len_of_def exact_mul_def arange_0_3 py_slice_def py_slice_from_def slice_idx_def
      fancy3_def fancy_def EEGDataset_init_def)

text \<open>
  C7, as the code has it. Nothing compares the windows. When \<open>epo.X\<close> and \<open>epo.y\<close> have
  the same length the call returns a dataset for all arguments; and for
  \<open>0 \<le> train_len \<le> total\<close>, a validation length within \<open>[0, train_len]\<close> and
  \<open>0 < test_len \<le> total\<close> the head window of the train and validation trials and the tail
  window of the test trials share an index exactly when \<open>train_len + test_len\<close> exceeds the
  total (\<open>train_len\<close> as passed, which is the adjusted train length plus the validation
  length).
\<close>

theorem split_never_checks_overlap:
  assumes "length (trials (epo_X e)) = length (epo_y e)"
  shows "(\<exists>ds. from_epo_to_dataset float_mul e trl te fr = Inr ds)
       \<and> (0 \<le> trl \<and> trl \<le> int (length (epo_y e))
            \<and> 0 \<le> valid_len_of float_mul trl fr \<and> valid_len_of float_mul trl fr \<le> trl
            \<and> 0 < te \<and> te \<le> int (length (epo_y e)) \<longrightarrow>
          ((set (train_indexes (length (epo_y e)) (trl - valid_len_of float_mul trl fr))
              \<union> set (valid_indexes (length (epo_y e)) (trl - valid_len_of float_mul trl fr)
                       (valid_len_of float_mul trl fr)))
             \<inter> set (test_indexes (length (epo_y e)) te) \<noteq> {})
          = (int (length (epo_y e)) < trl + te))"
proof (intro conjI impI)
  show "\<exists>ds. from_epo_to_dataset float_mul e trl te fr = Inr ds"
    by (rule from_epo_to_dataset_total[OF assms])
next
  let ?tot = "length (epo_y e)"
  let ?vl = "valid_len_of float_mul trl fr"
  assume a: "0 \<le> trl \<and> trl \<le> int ?tot \<and> 0 \<le> ?vl \<and> ?vl \<le> trl \<and> 0 < te \<and> te \<le> int ?tot"
  then have h: "0 \<le> trl" "0 \<le> ?vl" "?vl \<le> trl" "0 < te" "trl \<le> int ?tot" "te \<le> int ?tot"
    by simp_all
  note ti = index_windows_eq[OF h(2,3)]
  let ?a = "nat (trl - ?vl)"
  have a_le: "?a \<le> nat trl" using h(2) by simp
  have m: "min (nat trl) ?tot = nat trl" "min ?a ?tot = ?a" using h(5) a_le by simp_all
  have head: "set (train_indexes ?tot (trl - ?vl)) \<union> set (valid_indexes ?tot (trl - ?vl) ?vl)
              = int ` {0..<nat trl}"
  proof -
    have "{0..<?a} \<union> {?a..<nat trl} = {0..<nat trl}" using a_le by auto
    then have "int ` {0..<?a} \<union> int ` {?a..<nat trl} = int ` {0..<nat trl}"
      by (simp only: image_Un[symmetric])
    then show ?thesis by (simp add: ti(1) ti(2) m)
  qed
  have tail: "set (test_indexes ?tot te) = int ` {?tot - nat te..<?tot}"
    by (simp add: test_indexes_eq[OF h(4)])
  have "(int ` {0..<nat trl} \<inter> int ` {?tot - nat te..<?tot} \<noteq> {})
        = ({0..<nat trl} \<inter> {?tot - nat te..<?tot} \<noteq> {})"
    by (simp add: image_Int[symmetric])
  also have "\<dots> = (?tot - nat te < nat trl)"
  proof
    assume "{0..<nat trl} \<inter> {?tot - nat te..<?tot} \<noteq> {}"
    then obtain k where "k < nat trl" "?tot - nat te \<le> k" by auto
    then show "?tot - nat te < nat trl" by simp
  next
    assume l: "?tot - nat te < nat trl"
    have "?tot - nat te < ?tot" using h(4) l h(5) by linarith
    then have "?tot - nat te \<in> {0..<nat trl} \<inter> {?tot - nat te..<?tot}" using l by simp
    then show "{0..<nat trl} \<inter> {?tot - nat te..<?tot} \<noteq> {}" by blast
  qed
  also have "\<dots> = (int ?tot < trl + te)" using h by linarith
  finally show "((set (train_indexes ?tot (trl - ?vl)) \<union> set (valid_indexes ?tot (trl - ?vl) ?vl))
             \<inter> set (test_indexes ?tot te) \<noteq> {}) = (int ?tot < trl + te)"
    by (simp only: head tail)
qed

theorem split_never_checks_overlap_witness:
  "(\<exists>ds. from_epo_to_dataset exact_mul
           \<lparr>epo_X = \<lparr>chans = 1, samps = 1, trials = [[[1 :: int]], [[2]], [[3]]]\<rparr>,
            epo_y = [0, 1, 0]\<rparr> 2 2 0 = Inr ds)
   \<and> (set (train_indexes 3 2) \<union> set (valid_indexes 3 2 0)) \<inter> set (test_indexes 3 2) \<noteq> {}"
proof -
  let ?e = "\<lparr>epo_X = \<lparr>chans = 1, samps = 1, trials = [[[1 :: int]], [[2]], [[3]]]\<rparr>,
            epo_y = [0, 1, 0 :: int]\<rparr>"
  have h: "length (trials (epo_X ?e)) = length (epo_y ?e)" by simp
  have l: "length (epo_y ?e) = 3" by simp
  have v: "valid_len_of exact_mul 2 0 = 0" by (simp add: valid_len_of_def exact_mul_def)
  show ?thesis
    using split_never_checks_overlap[OF h, of exact_mul 2 2 0] unfolding l v by simp
qed

text \<open>
  The claim as stated fails: with three trials, a train length of 2 and a test length of
  2 the call returns normally, and trial 1 is in both the train and the test partition.
\<close>

theorem split_overlap_counterexample:
  "from_epo_to_dataset exact_mul
     \<lparr>epo_X = \<lparr>chans = 1, samps = 1, trials = [[[1 :: int]], [[2]], [[3]]]\<rparr>,
      epo_y = [0, 1, 0]\<rparr> 2 2 0
   = Inr \<lparr>X_train = \<lparr>chans = 1, samps = 1, trials = [[[1]], [[2]]]\<rparr>, y_train = [0, 1],
          X_valid = \<lparr>chans = 1, samps = 1, trials = []\<rparr>, y_valid = [],
          X_test = \<lparr>chans = 1, samps = 1, trials = [[[2]], [[3]]]\<rparr>, y_test = [1, 0]\<rparr>"
  by (simp add: from_epo_to_dataset_def train_indexes_def valid_indexes_def test_indexes_def
      valid_len_of_def exact_mul_def arange_0_3 py_slice_def py_slice_from_def slice_idx_def
      fancy3_def fancy_def EEGDataset_init_def)

section \<open>Label encoding of the dataset\<close>

lemma length_np_unique: "length (np_unique ys) = card (set ys)"
  by (simp add: np_unique_def length_remdups_card_conv)

text \<open>
  C9. With the class count omitted, \<open>to_categorical\<close> uses the number of distinct labels
  of the train partition: the call equals the call with that count given, whatever the
  labels of the other two partitions are, and a result holds the encodings of all three
  label vectors against that count, the X arrays unchanged.
\<close>

theorem class_count_from_train_only:
  "to_categorical to_cat ds None
     = to_categorical to_cat ds (Some (int (card (set (y_train ds)))))
   \<and> to_categorical to_cat (ds\<lparr>y_valid := v, y_test := t\<rparr>) None
     = to_categorical to_cat (ds\<lparr>y_valid := v, y_test := t\<rparr>)
         (Some (int (card (set (y_train ds)))))
   \<and> (\<forall>ds'. to_categorical to_cat ds None = Inr ds' \<longrightarrow>
         to_cat (y_train ds) (int (card (set (y_train ds)))) = Inr (y_train ds')
       \<and> to_cat (y_valid ds) (int (card (set (y_train ds)))) = Inr (y_valid ds')
       \<and> to_cat (y_test ds) (int (card (set (y_train ds)))) = Inr (y_test ds')
       \<and> X_train ds' = X_train ds \<and> X_valid ds' = X_valid ds \<and> X_test ds' = X_test ds)"
proof (intro conjI allI impI)
  show "to_categorical to_cat ds None
     = to_categorical to_cat ds (Some (int (card (set (y_train ds)))))"
    by (simp add: to_categorical_def length_np_unique)
  show "to_categorical to_cat (ds\<lparr>y_valid := v, y_test := t\<rparr>) None
     = to_categorical to_cat (ds\<lparr>y_valid := v, y_test := t\<rparr>)
         (Some (int (card (set (y_train ds)))))"
    by (simp add: to_categorical_def length_np_unique)
next
  fix ds' assume a: "to_categorical to_cat ds None = Inr ds'"
  let ?n = "int (card (set (y_train ds)))"
  from a obtain a1 a2 a3 where
    e: "to_cat (y_train ds) ?n = Inr a1" "to_cat (y_valid ds) ?n = Inr a2"
       "to_cat (y_test ds) ?n = Inr a3"
    and d: "ds' = \<lparr>X_train = X_train ds, y_train = a1, X_valid = X_valid ds, y_valid = a2,
                 X_test = X_test ds, y_test = a3\<rparr>"
    by (auto simp: to_categorical_def length_np_unique Let_def split: sum.splits)
  show "to_cat (y_train ds) ?n = Inr (y_train ds')" using e d by simp
  show "to_cat (y_valid ds) ?n = Inr (y_valid ds')" using e d by simp
  show "to_cat (y_test ds) ?n = Inr (y_test ds')" using e d by simp
  show "X_train ds' = X_train ds" "X_valid ds' = X_valid ds" "X_test ds' = X_test ds"
    using d by simp_all
qed

theorem class_count_from_train_only_witness:
  "to_categorical one_hot
     \<lparr>X_train = \<lparr>chans = 0, samps = 0, trials = ([] :: int list list list)\<rparr>, y_train = [0, 1, 1],
      X_valid = \<lparr>chans = 0, samps = 0, trials = []\<rparr>, y_valid = [0],
      X_test = \<lparr>chans = 0, samps = 0, trials = []\<rparr>, y_test = [1]\<rparr> None
   = Inr \<lparr>X_train = \<lparr>chans = 0, samps = 0, trials = []\<rparr>, y_train = [[1, 0], [0, 1], [0, 1]],
      X_valid = \<lparr>chans = 0, samps = 0, trials = []\<rparr>, y_valid = [[1, 0]],
      X_test = \<lparr>chans = 0, samps = 0, trials = []\<rparr>, y_test = [[0, 1]]\<rparr>
   \<and> one_hot [0, 1, 1] 2 = Inr [[1, 0], [0, 1], [0, 1]]"
proof -
  let ?ds = "\<lparr>X_train = \<lparr>chans = 0, samps = 0, trials = ([] :: int list list list)\<rparr>,
      y_train = [0, 1, 1 :: int],
      X_valid = \<lparr>chans = 0, samps = 0, trials = []\<rparr>, y_valid = [0 :: int],
      X_test = \<lparr>chans = 0, samps = 0, trials = []\<rparr>, y_test = [1 :: int]\<rparr>"
  let ?r = "\<lparr>X_train = \<lparr>chans = 0, samps = 0, trials = ([] :: int list list list)\<rparr>,
      y_train = [[1, 0], [0, 1], [0, 1 :: int]],
      X_valid = \<lparr>chans = 0, samps = 0, trials = []\<rparr>, y_valid = [[1, 0 :: int]],
      X_test = \<lparr>chans = 0, samps = 0, trials = []\<rparr>, y_test = [[0, 1 :: int]]\<rparr>"
  have c: "card (set (y_train ?ds)) = 2" by (simp add: card_insert_if)
  have ev: "to_categorical one_hot ?ds (Some 2) = Inr ?r"
    by (simp add: to_categorical_def one_hot_def numeral_2_eq_2)
  note t = class_count_from_train_only[of one_hot ?ds "[]" "[]", unfolded c]
  have r: "to_categorical one_hot ?ds None = Inr ?r" using t ev by simp
  from t r have "one_hot (y_train ?ds) (int 2) = Inr (y_train ?r)" by blast
  then show ?thesis using r by simp
qed

section \<open>EEGDataGenerator: one request\<close>

lemma unpack_trial_ok:
  assumes ok: "gen_ok g" and c: "next_to_unpack g < n_trials g"
  shows "unpack_trial g = Inr (after_unpack g)"
proof -
  let ?X = "gen_X g" let ?W = "crop_sample_size g" let ?S = "crop_step g"
  let ?c = "next_to_unpack g"
  let ?t = "indexes g ! ?c"
  let ?n = "crops_of (samps ?X) ?W ?S"
  have wf: "wf3 ?X" and W: "0 < ?W" "?W \<le> int (samps ?X)" and S: "0 < ?S"
    and cpt: "n_crops_for_trial g = int ?n"
    and li: "length (indexes g) = n_trials g"
    and nt: "n_trials g = length (trials ?X)" and ly: "length (gen_y g) = length (trials ?X)"
    and sh: "?c \<noteq> 0 \<longrightarrow> chans (crop_stack_X g) = chans ?X \<and> samps (crop_stack_X g) = nat ?W"
    using ok by (simp_all add: gen_ok_def)
  have cl: "?c < length (indexes g)" using c li by simp
  then have "?t \<in> set (indexes g)" by simp
  then have t: "?t < length (trials ?X)" using ok nt by (simp add: gen_ok_def)
  let ?tr = "trials ?X ! ?t"
  have tin: "?tr \<in> set (trials ?X)" using t by simp
  have lent: "length ?tr = chans ?X" and rowlen: "\<forall>r \<in> set ?tr. length r = samps ?X"
    using wf tin by (auto simp: wf3_def)
  have ta: "trial_at ?X ?t = Inr \<lparr>cols = samps ?X, rows = ?tr\<rparr>"
    using t by (simp add: trial_at_def)
  have wfA: "wf2 \<lparr>cols = samps ?X, rows = ?tr\<rparr>" using rowlen by (simp add: wf2_def)
  note nv = n_crops_valid[OF W S]
  have W0: "0 \<le> ?W" and S0: "0 \<le> ?S" using W S by simp_all
  have cx: "crop_X \<lparr>cols = samps ?X, rows = ?tr\<rparr> (n_crops_for_trial g) ?W ?S =
            Inr \<lparr>chans = chans ?X, samps = nat ?W, trials = trial_crops g ?t\<rparr>"
    using crop_X_eq[OF wfA W0 S0, of ?n] nv(2) lent
    by (simp add: cpt trial_crops_def crops_of_def)
  have la: "label_at (gen_y g) ?t = Inr (gen_y g ! ?t)" using t ly by (simp add: label_at_def)
  have cy: "crop_y (gen_y g ! ?t) (n_crops_for_trial g) = Inr (trial_labels g ?t)"
    by (simp add: crop_y_def cpt trial_labels_def)
  have ap: "?c \<noteq> 0 \<Longrightarrow>
            append3 (crop_stack_X g) \<lparr>chans = chans ?X, samps = nat ?W, trials = trial_crops g ?t\<rparr>
            = Inr \<lparr>chans = chans ?X, samps = nat ?W,
                  trials = trials (crop_stack_X g) @ trial_crops g ?t\<rparr>"
    using sh by (simp add: append3_def)
  show ?thesis
  proof (cases "?c = 0")
    case True
    have "unpack_trial g = Inr (g\<lparr>crop_stack_X :=
              \<lparr>chans = chans ?X, samps = nat ?W, trials = trial_crops g ?t\<rparr>,
            crop_stack_y := trial_labels g ?t, next_to_unpack := ?c + 1\<rparr>)"
      unfolding unpack_trial_def Let_def
      using cl ta cx la cy by (simp add: True)
    then show ?thesis by (simp add: after_unpack_def True)
  next
    case False
    have "unpack_trial g = Inr (g\<lparr>crop_stack_X :=
              \<lparr>chans = chans ?X, samps = nat ?W,
               trials = trials (crop_stack_X g) @ trial_crops g ?t\<rparr>,
            crop_stack_y := crop_stack_y g @ trial_labels g ?t, next_to_unpack := ?c + 1\<rparr>)"
      unfolding unpack_trial_def Let_def
      using cl ta cx la cy ap[OF False] by (simp add: False)
    then show ?thesis by (simp add: after_unpack_def False)
  qed
qed

lemma length_trial_crops: "length (trial_crops g t) = nat (n_crops_for_trial g)"
  by (simp add: trial_crops_def length_windows)

lemma length_trial_labels: "length (trial_labels g t) = nat (n_crops_for_trial g)"
  by (simp add: trial_labels_def)

lemma gen_ok_after_unpack: "gen_ok g \<Longrightarrow> gen_ok (after_unpack g)"
  by (auto simp: gen_ok_def after_unpack_def length_trial_crops length_trial_labels)

lemma fancy_first:
  assumes "0 \<le> b" "nat b \<le> length xs"
  shows "fancy xs (arange 0 b) = Inr (take (nat b) xs)"
proof -
  have "arange 0 b = arange 0 (int (nat b))" using assms by simp
  then have "arange 0 b = map int [0..<nat b]" by (simp only: arange_nat)
  then show ?thesis using fancy_sub[OF assms(2), of 0] by simp
qed

lemma arange_from: "arange (int a) (int n) = map int [a..<n]"
proof (induction n)
  case 0
  then show ?case by (simp add: arange_def)
next
  case (Suc n)
  show ?case
  proof (cases "a \<le> n")
    case True
    then have "[int a..int (Suc n) - 1] = [int a..int n - 1] @ [int n]"
      by (simp add: upto_rec2)
    then show ?thesis using Suc True by (simp add: arange_def)
  next
    case False
    then show ?thesis by (simp add: arange_def)
  qed
qed

lemma fancy_rest:
  assumes "0 \<le> b"
  shows "fancy xs (arange b (int (length xs))) = Inr (drop (nat b) xs)"
proof -
  have "arange b (int (length xs)) = arange (int (nat b)) (int (length xs))"
    using assms by simp
  then have "arange b (int (length xs)) = map int [nat b..<length xs]"
    by (simp only: arange_from)
  then show ?thesis using fancy_sub[of "length xs" xs "nat b"] by simp
qed

lemma data_generation_full:
  assumes "0 < batch_size g" "batch_size g \<le> int (length (crop_stack_y g))"
    "length (trials (crop_stack_X g)) = length (crop_stack_y g)"
  shows "data_generation to_cat g =
     (case to_cat (take (nat (batch_size g)) (crop_stack_y g)) (n_classes g) of
        Inl e \<Rightarrow> Inl e
      | Inr cy \<Rightarrow>
          Inr ((add_newaxis ((crop_stack_X g)\<lparr>trials :=
                   take (nat (batch_size g)) (trials (crop_stack_X g))\<rparr>), cy),
               after_pop g))"
proof -
  let ?b = "batch_size g"
  have r: "refill g = Inr g" using assms(2) by simp
  have b0: "0 \<le> ?b" and bl: "nat ?b \<le> length (crop_stack_y g)"
    "nat ?b \<le> length (trials (crop_stack_X g))" using assms by simp_all
  have f1: "fancy (crop_stack_y g) (arange 0 ?b) = Inr (take (nat ?b) (crop_stack_y g))"
    by (rule fancy_first[OF b0 bl(1)])
  have f2: "fancy3 (crop_stack_X g) (arange 0 ?b) =
            Inr ((crop_stack_X g)\<lparr>trials := take (nat ?b) (trials (crop_stack_X g))\<rparr>)"
    by (simp add: fancy3_def fancy_first[OF b0 bl(2)])
  have f3: "fancy (crop_stack_y g) (arange ?b (int (length (crop_stack_y g)))) =
            Inr (drop (nat ?b) (crop_stack_y g))"
    by (rule fancy_rest[OF b0])
  have f4: "fancy3 (crop_stack_X g) (arange ?b (int (length (crop_stack_y g)))) =
            Inr ((crop_stack_X g)\<lparr>trials := drop (nat ?b) (trials (crop_stack_X g))\<rparr>)"
    using fancy_rest[OF b0, of "trials (crop_stack_X g)"] assms(3) by (simp add: fancy3_def)
  show ?thesis
    unfolding data_generation_def r Let_def
    by (simp add: f1 f2 f3 f4 after_pop_def split: sum.splits)
qed

lemma data_generation_step:
  assumes "int (length (crop_stack_y g)) < batch_size g"
  shows "data_generation to_cat g =
         (case unpack_trial g of Inl e \<Rightarrow> Inl e | Inr g' \<Rightarrow> data_generation to_cat g')"
proof -
  have "refill g = (case unpack_trial g of Inl e \<Rightarrow> Inl e | Inr g' \<Rightarrow> refill g')"
    using assms by (subst refill.simps) simp
  then show ?thesis by (simp add: data_generation_def split: sum.splits)
qed

lemma crop_X_loop_length:
  "crop_X_loop A S n i D a b = Inr C \<Longrightarrow> length (trials C) = length (trials D)"
proof (induction A S n i D a b rule: crop_X_loop.induct)
  case (1 A step n i new_X init stop)
  show ?case
  proof (cases "i < n")
    case True
    from "1.prems" True obtain D' where
      a: "assign_at new_X i (slice_cols A init stop) = Inr D'"
      and r: "crop_X_loop A step n (Suc i) D' (init + step) (stop + step) = Inr C"
      by (subst (asm) crop_X_loop.simps) (auto split: sum.splits)
    have "length (trials D') = length (trials new_X)"
      using a by (auto simp: assign_at_def split: if_splits)
    then show ?thesis using "1.IH"[OF True a r] by simp
  next
    case False
    then show ?thesis using "1.prems" by (subst (asm) crop_X_loop.simps) simp
  qed
qed

lemma crop_X_length:
  assumes "crop_X A n W S = Inr C"
  shows "0 \<le> n \<and> length (trials C) = nat n"
proof -
  from assms obtain Z where z: "zeros3 n (length (rows A)) W = Inr Z"
    and l: "crop_X_loop A S (nat n) 0 Z 0 W = Inr C"
    by (auto simp: crop_X_def split: sum.splits)
  have "0 \<le> n \<and> length (trials Z) = nat n"
    using z by (auto simp: zeros3_def split: if_splits)
  then show ?thesis using crop_X_loop_length[OF l] by simp
qed

lemma unpack_trial_count:
  assumes "unpack_trial g = Inr g'"
  shows "0 \<le> n_crops_for_trial g"
    and "next_to_unpack g < length (indexes g)"
    and "next_to_unpack g' = Suc (next_to_unpack g)"
    and "length (crop_stack_y g') =
           (if next_to_unpack g = 0 then 0 else length (crop_stack_y g))
           + nat (n_crops_for_trial g)"
    and "length (trials (crop_stack_X g')) =
           (if next_to_unpack g = 0 then 0 else length (trials (crop_stack_X g)))
           + nat (n_crops_for_trial g)"
    and "batch_size g' = batch_size g" "n_crops_for_trial g' = n_crops_for_trial g"
      "n_crops g' = n_crops g" "indexes g' = indexes g" "n_trials g' = n_trials g"
      "n_classes g' = n_classes g"
proof -
  let ?c = "next_to_unpack g"
  from assms have cl: "?c < length (indexes g)"
    by (auto simp: unpack_trial_def split: if_splits)
  from assms cl obtain A C SX l ls where
    cx: "crop_X A (n_crops_for_trial g) (crop_sample_size g) (crop_step g) = Inr C"
    and sx: "(if ?c = 0 then Inr C else append3 (crop_stack_X g) C) = Inr SX"
    and cy: "crop_y l (n_crops_for_trial g) = Inr ls"
    and g': "g' = g\<lparr>crop_stack_X := SX,
                     crop_stack_y := (if ?c = 0 then ls else crop_stack_y g @ ls),
                     next_to_unpack := ?c + 1\<rparr>"
    by (auto simp: unpack_trial_def Let_def split: sum.splits)
  note cl' = crop_X_length[OF cx]
  have lls: "length ls = nat (n_crops_for_trial g)"
    using cy by (auto simp: crop_y_def split: if_splits)
  have lsx: "length (trials SX) =
             (if ?c = 0 then 0 else length (trials (crop_stack_X g))) + nat (n_crops_for_trial g)"
    using sx cl' by (auto simp: append3_def split: if_splits)
  show "0 \<le> n_crops_for_trial g" using cl' by simp
  show "?c < length (indexes g)" by (rule cl)
  show "next_to_unpack g' = Suc ?c" using g' by simp
  show "length (crop_stack_y g') =
           (if ?c = 0 then 0 else length (crop_stack_y g)) + nat (n_crops_for_trial g)"
    using g' lls by simp
  show "length (trials (crop_stack_X g')) =
           (if ?c = 0 then 0 else length (trials (crop_stack_X g))) + nat (n_crops_for_trial g)"
    using g' lsx by simp
  show "batch_size g' = batch_size g" "n_crops_for_trial g' = n_crops_for_trial g"
      "n_crops g' = n_crops g" "indexes g' = indexes g" "n_trials g' = n_trials g"
      "n_classes g' = n_classes g"
    using g' by simp_all
qed

declare refill.simps [simp del]

lemma refill_count:
  "refill g = Inr g' \<Longrightarrow> next_to_unpack g \<noteq> 0
   \<Longrightarrow> length (trials (crop_stack_X g)) = length (crop_stack_y g)
   \<Longrightarrow> next_to_unpack g \<le> length (indexes g)
   \<Longrightarrow> batch_size g \<le> int (length (crop_stack_y g'))
     \<and> length (trials (crop_stack_X g')) = length (crop_stack_y g')
     \<and> next_to_unpack g \<le> next_to_unpack g' \<and> next_to_unpack g' \<le> length (indexes g')
     \<and> int (length (crop_stack_y g')) = int (length (crop_stack_y g))
           + (int (next_to_unpack g') - int (next_to_unpack g)) * n_crops_for_trial g
     \<and> batch_size g' = batch_size g \<and> n_crops_for_trial g' = n_crops_for_trial g
     \<and> n_crops g' = n_crops g \<and> indexes g' = indexes g \<and> n_trials g' = n_trials g
     \<and> n_classes g' = n_classes g"
proof (induction g rule: refill.induct)
  case (1 g)
  show ?case
  proof (cases "int (length (crop_stack_y g)) < batch_size g")
    case False
    then have "g' = g" using "1.prems"(1) by (subst (asm) refill.simps) simp
    then show ?thesis using False "1.prems" by simp
  next
    case True
    from "1.prems"(1) True obtain g1 where u: "unpack_trial g = Inr g1"
      and r: "refill g1 = Inr g'"
      by (subst (asm) refill.simps) (auto split: sum.splits)
    note uc = unpack_trial_count[OF u]
    have c1: "next_to_unpack g1 \<noteq> 0" using uc(3) by simp
    have l1: "length (trials (crop_stack_X g1)) = length (crop_stack_y g1)"
      using uc(4,5) "1.prems"(2,3) by simp
    have b1: "next_to_unpack g1 \<le> length (indexes g1)" using uc(2,3,9) by simp
    from "1.IH"[OF True u r c1 l1 b1] have
      i1: "batch_size g1 \<le> int (length (crop_stack_y g'))"
      and i2: "length (trials (crop_stack_X g')) = length (crop_stack_y g')"
      and i3: "next_to_unpack g1 \<le> next_to_unpack g'"
      and i4: "next_to_unpack g' \<le> length (indexes g')"
      and i5: "int (length (crop_stack_y g')) = int (length (crop_stack_y g1))
           + (int (next_to_unpack g') - int (next_to_unpack g1)) * n_crops_for_trial g1"
      and i6: "batch_size g' = batch_size g1" "n_crops_for_trial g' = n_crops_for_trial g1"
        "n_crops g' = n_crops g1" "indexes g' = indexes g1" "n_trials g' = n_trials g1"
        "n_classes g' = n_classes g1"
      by blast+
    have q1: "int (length (crop_stack_y g1)) = int (length (crop_stack_y g)) + n_crops_for_trial g"
      using uc(1,4) "1.prems"(2) by simp
    have q: "int (length (crop_stack_y g')) = int (length (crop_stack_y g))
           + (int (next_to_unpack g') - int (next_to_unpack g)) * n_crops_for_trial g"
      using i5 q1 uc(3,7) by (simp add: algebra_simps)
    have c: "next_to_unpack g \<le> next_to_unpack g'" using i3 uc(3) by simp
    show ?thesis
      using i1 i2 i4 i6 q c uc(6-11) by simp
  qed
qed

lemma refill_from_zero:
  assumes "refill g = Inr g'" "next_to_unpack g = 0"
    "int (length (crop_stack_y g)) < batch_size g"
  shows "batch_size g \<le> int (length (crop_stack_y g'))
     \<and> length (trials (crop_stack_X g')) = length (crop_stack_y g')
     \<and> 1 \<le> next_to_unpack g' \<and> next_to_unpack g' \<le> length (indexes g')
     \<and> int (length (crop_stack_y g')) = int (next_to_unpack g') * n_crops_for_trial g
     \<and> batch_size g' = batch_size g \<and> n_crops_for_trial g' = n_crops_for_trial g
     \<and> n_crops g' = n_crops g \<and> indexes g' = indexes g \<and> n_trials g' = n_trials g
     \<and> n_classes g' = n_classes g"
proof -
  from assms(1,3) obtain g1 where u: "unpack_trial g = Inr g1" and r: "refill g1 = Inr g'"
    by (subst (asm) refill.simps) (auto split: sum.splits)
  note uc = unpack_trial_count[OF u]
  have c1: "next_to_unpack g1 \<noteq> 0" and c1': "next_to_unpack g1 = 1" using uc(3) assms(2) by simp_all
  have l1: "length (trials (crop_stack_X g1)) = length (crop_stack_y g1)"
    using uc(4,5) assms(2) by simp
  have b1: "next_to_unpack g1 \<le> length (indexes g1)" using uc(2,3,9) by simp
  from refill_count[OF r c1 l1 b1] have
      i1: "batch_size g1 \<le> int (length (crop_stack_y g'))"
      and i2: "length (trials (crop_stack_X g')) = length (crop_stack_y g')"
      and i3: "next_to_unpack g1 \<le> next_to_unpack g'"
      and i4: "next_to_unpack g' \<le> length (indexes g')"
      and i5: "int (length (crop_stack_y g')) = int (length (crop_stack_y g1))
           + (int (next_to_unpack g') - int (next_to_unpack g1)) * n_crops_for_trial g1"
      and i6: "batch_size g' = batch_size g1" "n_crops_for_trial g' = n_crops_for_trial g1"
        "n_crops g' = n_crops g1" "indexes g' = indexes g1" "n_trials g' = n_trials g1"
        "n_classes g' = n_classes g1"
    by blast+
  have q1: "int (length (crop_stack_y g1)) = n_crops_for_trial g"
    using uc(1,4) assms(2) by simp
  have q: "int (length (crop_stack_y g')) = int (next_to_unpack g') * n_crops_for_trial g"
    using i5 q1 c1' uc(7) by (simp add: algebra_simps)
  have c: "1 \<le> next_to_unpack g'" using i3 c1' by simp
  show ?thesis
    using i1 i2 i4 i6 q c uc(6-11) by simp
qed

lemma data_generation_via_refill:
  assumes r: "refill g = Inr g1" and b: "0 < batch_size g1"
    "batch_size g1 \<le> int (length (crop_stack_y g1))"
    and l: "length (trials (crop_stack_X g1)) = length (crop_stack_y g1)"
  shows "data_generation to_cat g = data_generation to_cat g1"
proof -
  have "refill g1 = Inr g1" using b(2) by (subst refill.simps) simp
  then show ?thesis using r by (simp add: data_generation_def)
qed

lemma fancy_length: "fancy xs idx = Inr r \<Longrightarrow> length r = length idx"
  by (auto simp: fancy_def split: if_splits)

lemma length_arange: "length (arange 0 b) = nat b"
  by (simp add: arange_def)

lemma refill_enough:
  "refill g = Inr g' \<Longrightarrow>
   batch_size g' = batch_size g \<and> n_classes g' = n_classes g
   \<and> batch_size g \<le> int (length (crop_stack_y g'))"
proof (induction g rule: refill.induct)
  case (1 g)
  show ?case
  proof (cases "int (length (crop_stack_y g)) < batch_size g")
    case False
    then have "g' = g" using "1.prems" by (subst (asm) refill.simps) simp
    then show ?thesis using False by simp
  next
    case True
    from "1.prems" True obtain g1 where u: "unpack_trial g = Inr g1"
      and r: "refill g1 = Inr g'"
      by (subst (asm) refill.simps) (auto split: sum.splits)
    note uc = unpack_trial_count[OF u]
    show ?thesis using "1.IH"[OF True u r] uc(6,11) by simp
  qed
qed

lemma data_generation_batch:
  assumes "data_generation to_cat g = Inr ((bX, cy), g')"
  shows "length (items bX) = nat (batch_size g)
       \<and> (\<exists>ls. length ls = nat (batch_size g) \<and> to_cat ls (n_classes g) = Inr cy)"
proof -
  from assms obtain g1 b_X b_y where r: "refill g = Inr g1"
    and fx: "fancy3 (crop_stack_X g1) (arange 0 (batch_size g1)) = Inr b_X"
    and fy: "fancy (crop_stack_y g1) (arange 0 (batch_size g1)) = Inr b_y"
    and tc: "to_cat b_y (n_classes g1) = Inr cy"
    and bx: "bX = add_newaxis b_X"
    by (auto simp: data_generation_def Let_def split: sum.splits)
  note re = refill_enough[OF r]
  from fx obtain ts where "fancy (trials (crop_stack_X g1)) (arange 0 (batch_size g1)) = Inr ts"
    and "b_X = (crop_stack_X g1)\<lparr>trials := ts\<rparr>"
    by (auto simp: fancy3_def split: sum.splits)
  then have "length (trials b_X) = nat (batch_size g1)"
    using fancy_length[of "trials (crop_stack_X g1)" "arange 0 (batch_size g1)" ts]
    by (simp add: length_arange)
  then have a: "length (items bX) = nat (batch_size g)"
    using bx re by (simp add: add_newaxis_def)
  have "length b_y = nat (batch_size g)"
    using fancy_length[OF fy] re by (simp add: length_arange)
  then show ?thesis using a tc re by auto
qed

lemma init_fields:
  assumes "EEGDataGenerator_init rnd X ys bs ncls W S shuf = Inr g0"
  shows "\<exists>cpt. n_crops_of (samps X) W S = Inr cpt \<and> n_crops_for_trial g0 = cpt
           \<and> n_crops g0 = cpt * int (length (trials X))"
    and "batch_size g0 = bs" and "n_trials g0 = length (trials X)"
    and "next_to_unpack g0 = 1"
    and "int (length (crop_stack_y g0)) = n_crops_for_trial g0"
    and "length (trials (crop_stack_X g0)) = length (crop_stack_y g0)"
    and "next_to_unpack g0 \<le> length (indexes g0)"
    and "0 \<le> n_crops_for_trial g0"
    and "indexes g0 = (if shuf then rnd [0..<length (trials X)] else [0..<length (trials X)])"
proof -
  from assms obtain cpt where n: "n_crops_of (samps X) W S = Inr cpt"
    by (auto simp: EEGDataGenerator_init_def split: sum.splits)
  let ?pre = "\<lparr>gen_X = X, gen_y = ys, batch_size = bs,
           n_trials = length (trials X), n_channels = chans X, n_samples = samps X,
           n_classes = (case ncls of
                          None \<Rightarrow> int (length (np_unique ys)) | Some k \<Rightarrow> k),
           crop_sample_size = W, crop_step = S,
           n_crops_for_trial = cpt, n_crops = cpt * int (length (trials X)),
           shuffle = shuf, current_batch = None,
           indexes = [], next_to_unpack = 0,
           crop_stack_X = \<lparr>chans = 0, samps = 0, trials = []\<rparr>, crop_stack_y = []\<rparr>"
  have u: "unpack_trial (on_epoch_end rnd ?pre) = Inr g0"
    using assms n by (simp add: EEGDataGenerator_init_def)
  note uc = unpack_trial_count[OF u]
  show "\<exists>cpt. n_crops_of (samps X) W S = Inr cpt \<and> n_crops_for_trial g0 = cpt
           \<and> n_crops g0 = cpt * int (length (trials X))"
    using n uc(7,8) by (simp add: on_epoch_end_def)
  show "batch_size g0 = bs" using uc(6) by (simp add: on_epoch_end_def)
  show "n_trials g0 = length (trials X)" using uc(10) by (simp add: on_epoch_end_def)
  show "next_to_unpack g0 = 1" using uc(3) by (simp add: on_epoch_end_def)
  show "int (length (crop_stack_y g0)) = n_crops_for_trial g0"
    using uc(1,4,7) by (simp add: on_epoch_end_def)
  show "length (trials (crop_stack_X g0)) = length (crop_stack_y g0)"
    using uc(4,5) by (simp add: on_epoch_end_def)
  show "next_to_unpack g0 \<le> length (indexes g0)" using uc(2,3,9) by simp
  show "0 \<le> n_crops_for_trial g0" using uc(1,7) by simp
  show "indexes g0 = (if shuf then rnd [0..<length (trials X)] else [0..<length (trials X)])"
    using uc(9) by (simp add: on_epoch_end_def)
qed

subsection \<open>The example, evaluated\<close>

lemmas eval_defs = unpack_trial_def on_epoch_end_def n_crops_of_def trial_at_def crop_X_def
  zeros3_def crop_X_loop.simps assign_at_def slice_cols_def py_slice_def slice_idx_def
  bc_ok_def expand_def label_at_def crop_y_def append3_def np_unique_def
  data_generation_def refill.simps arange_def fancy_def fancy3_def add_newaxis_def one_hot_def
  getitem_def Let_def upto_rec1 eval_nat_numeral

lemma example_init:
  "EEGDataGenerator_init (\<lambda>xs. xs) \<lparr>chans = 1, samps = 2, trials = [[[1, 2]], [[3, 4]]]\<rparr>
     [0, 1] 3 None 1 1 False = Inr example_gen"
  by (simp add: EEGDataGenerator_init_def example_gen_def eval_defs)

lemma example_batch:
  "getitem one_hot example_gen 0 =
     Inr ((\<lparr>axis1 = 1, chans4 = 1, samps4 = 1, items = [[[[1]]], [[[2]]], [[[3]]]]\<rparr>,
           [[1, 0], [1, 0], [0, 1]]),
          example_gen\<lparr>current_batch := Some 0, next_to_unpack := 2,
            crop_stack_X := \<lparr>chans = 1, samps = 1, trials = [[[4]]]\<rparr>, crop_stack_y := [1]\<rparr>)"
  by (simp add: example_gen_def eval_defs)

lemma example_ok: "gen_ok example_gen"
  by (simp add: gen_ok_def example_gen_def wf3_def crops_of_def)

lemma example_batch_epoch2:
  "getitem one_hot
     (on_epoch_end (\<lambda>xs. xs)
        (example_gen\<lparr>current_batch := Some 0, next_to_unpack := 2,
           crop_stack_X := \<lparr>chans = 1, samps = 1, trials = [[[4]]]\<rparr>, crop_stack_y := [1]\<rparr>)) 0 =
     Inr ((\<lparr>axis1 = 1, chans4 = 1, samps4 = 1, items = [[[[1]]], [[[2]]], [[[3]]]]\<rparr>,
           [[1, 0], [1, 0], [0, 1]]),
          example_gen\<lparr>current_batch := Some 0, next_to_unpack := 2,
            crop_stack_X := \<lparr>chans = 1, samps = 1, trials = [[[4]]]\<rparr>, crop_stack_y := [1]\<rparr>)"
  by (simp add: example_gen_def eval_defs)

section \<open>Batches per epoch\<close>

text \<open>
  C3. For a generator that the constructor returned, with a positive batch size:
  \<open>n_crops\<close> is the crop count per trial times the number of trials; \<open>__len__\<close> is
  \<open>floor(n_crops / batch_size)\<close>, so \<open>len * batch_size \<le> n_crops < (len + 1) * batch_size\<close>;
  and whenever a generator with that batch size returns a batch, the batch has exactly
  \<open>batch_size\<close> crops and the labels handed to the encoder are exactly \<open>batch_size\<close>.
\<close>

theorem batch_count_law:
  fixes X :: "('a::zero) arr3"
  assumes "EEGDataGenerator_init rnd X ys bs ncls W S shuf = Inr g0" "0 < bs"
  shows "\<exists>cpt. n_crops_of (samps X) W S = Inr cpt
         \<and> n_crops g0 = cpt * int (length (trials X))
         \<and> len_batches g0 = Inr \<lfloor>real_of_int (n_crops g0) / real_of_int bs\<rfloor>
         \<and> \<lfloor>real_of_int (n_crops g0) / real_of_int bs\<rfloor> * bs \<le> n_crops g0
         \<and> n_crops g0 < (\<lfloor>real_of_int (n_crops g0) / real_of_int bs\<rfloor> + 1) * bs
         \<and> (\<forall>to_cat g bX cy g'.
               batch_size g = bs \<longrightarrow>
               data_generation to_cat g = Inr ((bX, cy :: 'c), g' :: ('a::zero) EEGDataGenerator) \<longrightarrow>
               length (items bX) = nat bs
             \<and> (\<exists>ls. length ls = nat bs \<and> to_cat ls (n_classes g) = Inr cy))"
proof -
  from init_fields(1)[OF assms(1)] obtain cpt where
    n: "n_crops_of (samps X) W S = Inr cpt" "n_crops g0 = cpt * int (length (trials X))"
    by blast
  have b: "batch_size g0 = bs" by (rule init_fields(2)[OF assms(1)])
  let ?L = "\<lfloor>real_of_int (n_crops g0) / real_of_int bs\<rfloor>"
  have L: "?L = n_crops g0 div bs" by (simp add: floor_divide_of_int_eq)
  have len: "len_batches g0 = Inr ?L" using assms(2) b by (simp add: len_batches_def)
  have m: "n_crops g0 = (n_crops g0 div bs) * bs + n_crops g0 mod bs" by simp
  have r: "0 \<le> n_crops g0 mod bs" "n_crops g0 mod bs < bs" using assms(2) by simp_all
  have lo: "?L * bs \<le> n_crops g0" unfolding L using m r(1) by linarith
  have hi: "n_crops g0 < (?L + 1) * bs"
  proof -
    have "(n_crops g0 div bs + 1) * bs = (n_crops g0 div bs) * bs + bs"
      by (simp add: algebra_simps)
    then show ?thesis unfolding L using m r(2) by linarith
  qed
  have bt: "length (items bX) = nat bs
             \<and> (\<exists>ls. length ls = nat bs \<and> to_cat ls (n_classes g) = Inr cy)"
    if "batch_size g = bs" "data_generation to_cat g = Inr ((bX, cy), g')"
    for to_cat :: "int list \<Rightarrow> int \<Rightarrow> error + 'c" and g :: "'a EEGDataGenerator" and bX cy g'
    using data_generation_batch[OF that(2)] that(1) by simp
  show ?thesis
    apply (rule exI[of _ cpt])
    using n len lo hi bt by blast
qed

theorem batch_count_law_witness:
  "len_batches example_gen = Inr 1
   \<and> 1 * 3 \<le> n_crops example_gen \<and> n_crops example_gen < (1 + 1) * 3
   \<and> length (items \<lparr>axis1 = 1, chans4 = 1, samps4 = 1,
                     items = [[[[1 :: int]]], [[[2]]], [[[3]]]]\<rparr>) = nat 3"
proof -
  have b: "(0::int) < 3" by simp
  have fl: "\<lfloor>real_of_int (n_crops example_gen) / real_of_int 3\<rfloor> = 1"
    by (simp add: example_gen_def floor_divide_of_int_eq[where ?'a = real, of 4 3, simplified])
  have bs: "batch_size (example_gen\<lparr>current_batch := Some 0\<rparr>) = 3"
    by (simp add: example_gen_def)
  have dg: "data_generation one_hot (example_gen\<lparr>current_batch := Some 0\<rparr>) =
     Inr ((\<lparr>axis1 = 1, chans4 = 1, samps4 = 1, items = [[[[1]]], [[[2]]], [[[3]]]]\<rparr>,
           [[1, 0], [1, 0], [0, 1]]),
          example_gen\<lparr>current_batch := Some 0, next_to_unpack := 2,
            crop_stack_X := \<lparr>chans = 1, samps = 1, trials = [[[4]]]\<rparr>, crop_stack_y := [1]\<rparr>)"
    using example_batch by (simp add: getitem_def)
  from batch_count_law[where ?'c = "int list list", OF example_init b, unfolded fl]
  obtain cpt where
    a: "len_batches example_gen = Inr 1" "1 * 3 \<le> n_crops example_gen"
       "n_crops example_gen < (1 + 1) * 3"
    and t: "\<forall>to_cat g bX cy g'.
               batch_size g = 3 \<longrightarrow>
               data_generation to_cat g = Inr ((bX, cy :: int list list), g' :: int EEGDataGenerator) \<longrightarrow>
               length (items bX) = nat 3
             \<and> (\<exists>ls. length ls = nat 3 \<and> to_cat ls (n_classes g) = Inr cy)"
    by blast
  from t[rule_format, OF bs dg] a show ?thesis by blast
qed

section \<open>Conservation within an epoch\<close>

lemma data_generation_pop:
  assumes dg: "data_generation to_cat g = Inr (r, g')" and r: "refill g = Inr g1"
    and b: "0 < batch_size g1" "batch_size g1 \<le> int (length (crop_stack_y g1))"
    and l: "length (trials (crop_stack_X g1)) = length (crop_stack_y g1)"
  shows "g' = after_pop g1"
proof -
  have "data_generation to_cat g = data_generation to_cat g1"
    by (rule data_generation_via_refill[OF r b l])
  then show ?thesis
    using dg data_generation_full[OF b l, of to_cat] by (auto split: sum.splits)
qed

lemma getitem_conserved:
  assumes gi: "getitem to_cat g i = Inr (r, g')"
    and b: "0 < batch_size g"
    and c: "next_to_unpack g \<noteq> 0" "next_to_unpack g \<le> length (indexes g)"
    and cons: "conserved g e"
  shows "conserved g' (Suc e) \<and> next_to_unpack g' \<noteq> 0
       \<and> next_to_unpack g' \<le> length (indexes g')
       \<and> batch_size g' = batch_size g \<and> n_crops_for_trial g' = n_crops_for_trial g
       \<and> n_crops g' = n_crops g \<and> n_trials g' = n_trials g
       \<and> length (indexes g') = length (indexes g)"
proof -
  let ?g = "g\<lparr>current_batch := Some i\<rparr>"
  have dg: "data_generation to_cat ?g = Inr (r, g')" using gi by (simp add: getitem_def)
  then obtain g1 where rf: "refill ?g = Inr g1"
    by (auto simp: data_generation_def split: sum.splits)
  have l: "length (trials (crop_stack_X ?g)) = length (crop_stack_y ?g)"
    using cons by (simp add: conserved_def)
  from refill_count[OF rf] c l have
      i1: "batch_size ?g \<le> int (length (crop_stack_y g1))"
      and i2: "length (trials (crop_stack_X g1)) = length (crop_stack_y g1)"
      and i3: "next_to_unpack ?g \<le> next_to_unpack g1"
      and i4: "next_to_unpack g1 \<le> length (indexes g1)"
      and i5: "int (length (crop_stack_y g1)) = int (length (crop_stack_y ?g))
           + (int (next_to_unpack g1) - int (next_to_unpack ?g)) * n_crops_for_trial ?g"
      and i6: "batch_size g1 = batch_size ?g" "n_crops_for_trial g1 = n_crops_for_trial ?g"
        "n_crops g1 = n_crops ?g" "indexes g1 = indexes ?g" "n_trials g1 = n_trials ?g"
    by auto
  have b1: "0 < batch_size g1" "batch_size g1 \<le> int (length (crop_stack_y g1))"
    using b i1 i6(1) by simp_all
  have g': "g' = after_pop g1" by (rule data_generation_pop[OF dg rf b1 i2])
  have q: "int (length (crop_stack_y g')) = int (length (crop_stack_y g1)) - batch_size g"
    using g' b1 i6(1) by (simp add: after_pop_def)
  have q0: "int (length (crop_stack_y g)) =
            int (next_to_unpack g) * n_crops_for_trial g - batch_size g * int e"
    using cons by (simp add: conserved_def)
  have "int (length (crop_stack_y g')) =
        int (next_to_unpack g1) * n_crops_for_trial g - batch_size g * int (Suc e)"
    using q i5 q0 by (simp add: algebra_simps)
  then have "conserved g' (Suc e)"
    using g' i2 i6 by (simp add: conserved_def after_pop_def)
  then show ?thesis using g' i3 i4 i6 c by (simp add: after_pop_def)
qed

lemma getitem_after_reset:
  assumes gi: "getitem to_cat (on_epoch_end rnd g) i = Inr (r, g')"
    and b: "0 < batch_size g"
    and q: "int (length (crop_stack_y g)) < batch_size g"
    and l: "length (rnd [0..<n_trials g]) = n_trials g" "length (indexes g) = n_trials g"
  shows "conserved g' 1 \<and> next_to_unpack g' \<noteq> 0
       \<and> next_to_unpack g' \<le> length (indexes g')
       \<and> batch_size g' = batch_size g \<and> n_crops_for_trial g' = n_crops_for_trial g
       \<and> n_crops g' = n_crops g \<and> n_trials g' = n_trials g
       \<and> length (indexes g') = length (indexes g)"
proof -
  let ?g = "(on_epoch_end rnd g)\<lparr>current_batch := Some i\<rparr>"
  have dg: "data_generation to_cat ?g = Inr (r, g')" using gi by (simp add: getitem_def)
  then obtain g1 where rf: "refill ?g = Inr g1"
    by (auto simp: data_generation_def split: sum.splits)
  have z: "next_to_unpack ?g = 0" by (simp add: on_epoch_end_def)
  have qq: "int (length (crop_stack_y ?g)) < batch_size ?g"
    using q by (simp add: on_epoch_end_def)
  from refill_from_zero[OF rf z qq] have
      i1: "batch_size ?g \<le> int (length (crop_stack_y g1))"
      and i2: "length (trials (crop_stack_X g1)) = length (crop_stack_y g1)"
      and i3: "1 \<le> next_to_unpack g1"
      and i4: "next_to_unpack g1 \<le> length (indexes g1)"
      and i5: "int (length (crop_stack_y g1)) = int (next_to_unpack g1) * n_crops_for_trial ?g"
      and i6: "batch_size g1 = batch_size ?g" "n_crops_for_trial g1 = n_crops_for_trial ?g"
        "n_crops g1 = n_crops ?g" "indexes g1 = indexes ?g" "n_trials g1 = n_trials ?g"
    by auto
  have f: "batch_size ?g = batch_size g" "n_crops_for_trial ?g = n_crops_for_trial g"
    "n_crops ?g = n_crops g" "n_trials ?g = n_trials g"
    "length (indexes ?g) = length (indexes g)"
    using l by (simp_all add: on_epoch_end_def)
  have b1: "0 < batch_size g1" "batch_size g1 \<le> int (length (crop_stack_y g1))"
    using b i1 i6(1) f(1) by simp_all
  have g': "g' = after_pop g1" by (rule data_generation_pop[OF dg rf b1 i2])
  have "int (length (crop_stack_y g')) = int (length (crop_stack_y g1)) - batch_size g"
    using g' b1 i6(1) f(1) by (simp add: after_pop_def)
  then have "int (length (crop_stack_y g')) =
        int (next_to_unpack g1) * n_crops_for_trial g - batch_size g * int 1"
    using i5 f(2) by simp
  then have "conserved g' 1"
    using g' i2 i6 f by (simp add: conserved_def after_pop_def)
  then show ?thesis using g' i3 i4 i6 f by (simp add: after_pop_def)
qed

lemma epoch_states_inv:
  assumes init: "EEGDataGenerator_init rnd0 X ys bs ncls W S shuf = Inr g0"
    and b: "0 < bs" and l0: "length (indexes g0) = n_trials g0"
  shows "epoch_states to_cat g0 g e \<Longrightarrow>
         conserved g e \<and> next_to_unpack g \<noteq> 0 \<and> next_to_unpack g \<le> length (indexes g)
       \<and> batch_size g = bs \<and> n_crops_for_trial g = n_crops_for_trial g0
       \<and> n_crops g = n_crops g0 \<and> n_trials g = n_trials g0
       \<and> length (indexes g) = n_trials g0"
proof (induction rule: epoch_states.induct)
  case constructed
  note f = init_fields[OF init]
  show ?case using f(2,4,5,6,7) l0 by (simp add: conserved_def)
next
  case (batch g e i r g')
  then have h: "conserved g e" "next_to_unpack g \<noteq> 0" "next_to_unpack g \<le> length (indexes g)"
    "0 < batch_size g" using b by simp_all
  from getitem_conserved[OF batch.hyps(2) h(4) h(2) h(3) h(1)] batch.IH
  show ?case by simp
next
  case (new_epoch g e rnd i r g')
  then have h: "0 < batch_size g" "length (indexes g) = n_trials g" using b by simp_all
  from getitem_after_reset[OF new_epoch.hyps(4) h(1) new_epoch.hyps(2) new_epoch.hyps(3) h(2)]
    new_epoch.IH
  show ?case by simp
qed

text \<open>
  C10, as the code has it. In every state reached after construction and after a batch
  request, where a new epoch is only entered with fewer than \<open>batch_size\<close> crops left, the
  number of crops in the stack is \<open>next_to_unpack * n_crops_for_trial\<close> minus \<open>batch_size\<close>
  times the number of batches of the epoch, which is therefore not negative; and after
  \<open>floor(n_crops / batch_size)\<close> batches fewer than \<open>batch_size\<close> crops are left, so that
  an epoch of that many batches ends in a state from which the next may be entered.
\<close>

theorem epoch_conservation:
  assumes init: "EEGDataGenerator_init rnd0 X ys bs ncls W S shuf = Inr g0"
    and b: "0 < bs"
    and sh: "shuf \<longrightarrow> length (rnd0 [0..<length (trials X)]) = length (trials X)"
    and run: "epoch_states to_cat g0 g e"
  shows "int (length (crop_stack_y g)) = int (next_to_unpack g) * n_crops_for_trial g - bs * int e
       \<and> length (trials (crop_stack_X g)) = length (crop_stack_y g)
       \<and> 0 \<le> int (next_to_unpack g) * n_crops_for_trial g - bs * int e
       \<and> (int e = \<lfloor>real_of_int (n_crops g) / real_of_int bs\<rfloor> \<longrightarrow>
            int (length (crop_stack_y g)) < bs)"
proof -
  note f = init_fields[OF init]
  have l0: "length (indexes g0) = n_trials g0" using f(3,9) sh by simp
  from epoch_states_inv[OF init b l0 run] have
    c: "conserved g e" and n: "next_to_unpack g \<le> length (indexes g)"
    and s: "batch_size g = bs" "n_crops_for_trial g = n_crops_for_trial g0"
      "n_crops g = n_crops g0" "n_trials g = n_trials g0" "length (indexes g) = n_trials g0"
    by auto
  have q: "int (length (crop_stack_y g)) = int (next_to_unpack g) * n_crops_for_trial g - bs * int e"
    and lx: "length (trials (crop_stack_X g)) = length (crop_stack_y g)"
    using c s(1) by (simp_all add: conserved_def)
  have nn: "0 \<le> int (next_to_unpack g) * n_crops_for_trial g - bs * int e"
    using q by linarith
  have last: "int (length (crop_stack_y g)) < bs"
    if e: "int e = \<lfloor>real_of_int (n_crops g) / real_of_int bs\<rfloor>"
  proof -
    from f(1) obtain cpt where cpt: "n_crops_for_trial g0 = cpt"
      "n_crops g0 = cpt * int (length (trials X))" by blast
    have tot: "n_crops g = n_crops_for_trial g * int (n_trials g0)"
      using cpt s f(3) by simp
    have c0: "0 \<le> n_crops_for_trial g" using f(8) s(2) by simp
    have "int (next_to_unpack g) \<le> int (n_trials g0)" using n s(5) by simp
    then have "int (next_to_unpack g) * n_crops_for_trial g \<le> int (n_trials g0) * n_crops_for_trial g"
      using c0 by (rule mult_right_mono)
    then have up: "int (next_to_unpack g) * n_crops_for_trial g \<le> n_crops g"
      using tot by (simp add: mult.commute)
    have L: "int e = n_crops g div bs" using e by (simp add: floor_divide_of_int_eq)
    have m: "n_crops g = bs * (n_crops g div bs) + n_crops g mod bs" by simp
    have "n_crops g mod bs < bs" using b by simp
    then have "n_crops g - bs * (n_crops g div bs) < bs" using m by linarith
    then have "n_crops g - bs * int e < bs" using L by simp
    then show ?thesis using q up by linarith
  qed
  show ?thesis using q lx nn last by blast
qed

theorem epoch_conservation_witness:
  "epoch_states one_hot example_gen
     (example_gen\<lparr>current_batch := Some 0, next_to_unpack := 2,
        crop_stack_X := \<lparr>chans = 1, samps = 1, trials = [[[4]]]\<rparr>, crop_stack_y := [1]\<rparr>) 1
   \<and> int (length [1 :: int]) = int 2 * 2 - 3 * int 1
   \<and> int (length [1 :: int]) < 3"
proof -
  let ?g1 = "example_gen\<lparr>current_batch := Some 0, next_to_unpack := 2,
        crop_stack_X := \<lparr>chans = 1, samps = 1, trials = [[[4]]]\<rparr>, crop_stack_y := [1]\<rparr>"
  have b: "(0::int) < 3" by simp
  have sh: "False \<longrightarrow> length ((\<lambda>xs. xs) [0..<length (trials
              \<lparr>chans = 1, samps = 2, trials = [[[1, 2]], [[3, 4 :: int]]]\<rparr>)])
            = length (trials \<lparr>chans = 1, samps = 2, trials = [[[1, 2]], [[3, 4 :: int]]]\<rparr>)"
    by simp
  have r1: "epoch_states one_hot example_gen ?g1 (Suc 0)"
    by (rule epoch_states.batch[OF epoch_states.constructed example_batch])
  have q: "int (length (crop_stack_y ?g1)) < batch_size ?g1" by (simp add: example_gen_def)
  have l: "length ((\<lambda>xs. xs) [0..<n_trials ?g1]) = n_trials ?g1" by simp
  have r2: "epoch_states one_hot example_gen ?g1 1"
    by (rule epoch_states.new_epoch[OF r1 q l example_batch_epoch2])
  have f: "n_crops_for_trial ?g1 = 2" "next_to_unpack ?g1 = 2" "crop_stack_y ?g1 = [1]"
    "\<lfloor>real_of_int (n_crops ?g1) / real_of_int 3\<rfloor> = 1"
    by (simp_all add: example_gen_def floor_divide_of_int_eq[where ?'a = real, of 4 3, simplified])
  from epoch_conservation[OF example_init b sh r2, unfolded f]
  show ?thesis using r2 by simp
qed

text \<open>
  The claim as stated fails when \<open>on_epoch_end\<close> is called while a full batch is still in
  the stack: with batches of one, a reset right after construction and one request, the
  stack holds one crop, the pointer is 0 and one batch has been emitted.
\<close>

theorem early_reset_counterexample:
  "EEGDataGenerator_init (\<lambda>xs. xs) \<lparr>chans = 1, samps = 2, trials = [[[1, 2]], [[3, 4]]]\<rparr>
     [0, 1] 1 None 1 1 False = Inr (example_gen\<lparr>batch_size := 1\<rparr>)
   \<and> getitem one_hot (on_epoch_end (\<lambda>xs. xs) (example_gen\<lparr>batch_size := 1\<rparr>)) 0 =
       Inr ((\<lparr>axis1 = 1, chans4 = 1, samps4 = 1, items = [[[[1]]]]\<rparr>, [[1, 0]]),
            example_gen\<lparr>batch_size := 1, current_batch := Some 0, next_to_unpack := 0,
              crop_stack_X := \<lparr>chans = 1, samps = 1, trials = [[[2]]]\<rparr>, crop_stack_y := [0]\<rparr>)
   \<and> int (length (crop_stack_y
          (example_gen\<lparr>batch_size := 1, current_batch := Some 0, next_to_unpack := 0,
              crop_stack_X := \<lparr>chans = 1, samps = 1, trials = [[[2]]]\<rparr>, crop_stack_y := [0]\<rparr>)))
       \<noteq> int (next_to_unpack
          (example_gen\<lparr>batch_size := 1, current_batch := Some 0, next_to_unpack := 0,
              crop_stack_X := \<lparr>chans = 1, samps = 1, trials = [[[2]]]\<rparr>, crop_stack_y := [0]\<rparr>))
           * n_crops_for_trial example_gen - 1 * int 1"
  by (simp add: EEGDataGenerator_init_def example_gen_def eval_defs)

section \<open>What a batch request does\<close>

lemma conserved_after_unpack:
  assumes "conserved g e" "next_to_unpack g \<noteq> 0" "0 \<le> n_crops_for_trial g"
  shows "conserved (after_unpack g) e"
  using assms
  by (simp add: conserved_def after_unpack_def length_trial_crops length_trial_labels
      algebra_simps)

lemma after_unpack_fields:
  "batch_size (after_unpack g) = batch_size g" "n_crops (after_unpack g) = n_crops g"
  "n_classes (after_unpack g) = n_classes g" "n_trials (after_unpack g) = n_trials g"
  "next_to_unpack (after_unpack g) = Suc (next_to_unpack g)"
  "n_crops_for_trial (after_unpack g) = n_crops_for_trial g"
  by (simp_all add: after_unpack_def)

lemma gen_ok_cpt_pos: "gen_ok g \<Longrightarrow> 0 < n_crops_for_trial g"
  using n_crops_valid(3) by (simp add: gen_ok_def crops_of_def)

lemma data_generation_progress:
  assumes tc: "\<forall>ls. \<exists>cy. to_cat ls ncl = Inr cy"
  shows "gen_ok g \<Longrightarrow> next_to_unpack g \<noteq> 0 \<Longrightarrow> conserved g e
         \<Longrightarrow> (int e + 1) * batch_size g \<le> n_crops g \<Longrightarrow> n_classes g = ncl
         \<Longrightarrow> \<exists>r g'. data_generation to_cat g = Inr (r, g')"
proof (induction "n_trials g - next_to_unpack g" arbitrary: g rule: less_induct)
  case less
  have b: "0 < batch_size g" using less.prems(1) by (simp add: gen_ok_def)
  have lx: "length (trials (crop_stack_X g)) = length (crop_stack_y g)"
    using less.prems(3) by (simp add: conserved_def)
  show ?case
  proof (cases "int (length (crop_stack_y g)) < batch_size g")
    case False
    then have le: "batch_size g \<le> int (length (crop_stack_y g))" by simp
    from tc obtain cy where
      "to_cat (take (nat (batch_size g)) (crop_stack_y g)) (n_classes g) = Inr cy"
      using less.prems(5) by blast
    then show ?thesis using data_generation_full[OF b le lx, of to_cat] by simp
  next
    case True
    have cpt: "0 < n_crops_for_trial g" by (rule gen_ok_cpt_pos[OF less.prems(1)])
    have tot: "n_crops g = n_crops_for_trial g * int (n_trials g)"
      using less.prems(1) by (simp add: gen_ok_def)
    have q: "int (length (crop_stack_y g)) =
             int (next_to_unpack g) * n_crops_for_trial g - batch_size g * int e"
      using less.prems(3) by (simp add: conserved_def)
    have "int (next_to_unpack g) * n_crops_for_trial g < (int e + 1) * batch_size g"
      using True q by (simp add: algebra_simps)
    then have "int (next_to_unpack g) * n_crops_for_trial g
               < int (n_trials g) * n_crops_for_trial g"
      using less.prems(4) tot by (simp add: mult.commute)
    then have "int (next_to_unpack g) < int (n_trials g)"
      using cpt by (simp add: mult_less_cancel_right)
    then have c: "next_to_unpack g < n_trials g" by simp
    have u: "unpack_trial g = Inr (after_unpack g)"
      by (rule unpack_trial_ok[OF less.prems(1) c])
    have st: "data_generation to_cat g = data_generation to_cat (after_unpack g)"
      using data_generation_step[OF True, of to_cat] u by simp
    have "\<exists>r g'. data_generation to_cat (after_unpack g) = Inr (r, g')"
    proof (rule less.hyps)
      show "n_trials (after_unpack g) - next_to_unpack (after_unpack g)
            < n_trials g - next_to_unpack g"
        using c by (simp add: after_unpack_fields)
      show "gen_ok (after_unpack g)" by (rule gen_ok_after_unpack[OF less.prems(1)])
      show "next_to_unpack (after_unpack g) \<noteq> 0" by (simp add: after_unpack_fields)
      show "conserved (after_unpack g) e"
        using conserved_after_unpack[OF less.prems(3) less.prems(2)] cpt by simp
      show "(int e + 1) * batch_size (after_unpack g) \<le> n_crops (after_unpack g)"
        using less.prems(4) by (simp add: after_unpack_fields)
      show "n_classes (after_unpack g) = ncl"
        using less.prems(5) by (simp add: after_unpack_fields)
    qed
    then show ?thesis using st by simp
  qed
qed

text \<open>
  C2, as the code has it. For a generator in good order: while the stack holds fewer
  than \<open>batch_size\<close> labels and a trial is left, the request unpacks the trial at
  \<open>indexes[next_to_unpack]\<close> and goes on from the generator after the unpack, in which the
  pointer has moved by one and the crops and labels of the trial have been appended to
  the stacks when the pointer was not 0, and have replaced the stacks when it was 0; with
  no trial left it raises IndexError; and with at least \<open>batch_size\<close> labels it returns the
  first \<open>batch_size\<close> crops with the new axis and the encoding of the first \<open>batch_size\<close>
  labels against \<open>n_classes\<close>, and keeps the rest of both stacks in order.
\<close>

theorem batch_request_semantics:
  assumes ok: "gen_ok g"
  shows "(int (length (crop_stack_y g)) < batch_size g \<and> next_to_unpack g < n_trials g \<longrightarrow>
            unpack_trial g = Inr (after_unpack g)
          \<and> gen_ok (after_unpack g)
          \<and> data_generation to_cat g = data_generation to_cat (after_unpack g))
       \<and> (int (length (crop_stack_y g)) < batch_size g \<and> \<not> next_to_unpack g < n_trials g \<longrightarrow>
            data_generation to_cat g = Inl IndexError)
       \<and> (batch_size g \<le> int (length (crop_stack_y g)) \<longrightarrow>
            data_generation to_cat g =
              (case to_cat (take (nat (batch_size g)) (crop_stack_y g)) (n_classes g) of
                 Inl x \<Rightarrow> Inl x
               | Inr cy \<Rightarrow>
                   Inr ((add_newaxis ((crop_stack_X g)\<lparr>trials :=
                            take (nat (batch_size g)) (trials (crop_stack_X g))\<rparr>), cy),
                        after_pop g))
          \<and> length (take (nat (batch_size g)) (crop_stack_y g)) = nat (batch_size g)
          \<and> length (take (nat (batch_size g)) (trials (crop_stack_X g))) = nat (batch_size g))"
proof (intro conjI impI)
  assume a: "int (length (crop_stack_y g)) < batch_size g \<and> next_to_unpack g < n_trials g"
  then have u: "unpack_trial g = Inr (after_unpack g)" using unpack_trial_ok[OF ok] by simp
  show "unpack_trial g = Inr (after_unpack g)" by (rule u)
  show "gen_ok (after_unpack g)" by (rule gen_ok_after_unpack[OF ok])
  show "data_generation to_cat g = data_generation to_cat (after_unpack g)"
    using data_generation_step[of g to_cat] a u by simp
next
  assume a: "int (length (crop_stack_y g)) < batch_size g \<and> \<not> next_to_unpack g < n_trials g"
  have "length (indexes g) = n_trials g" using ok by (simp add: gen_ok_def)
  then have "unpack_trial g = Inl IndexError" using a by (simp add: unpack_trial_def)
  then show "data_generation to_cat g = Inl IndexError"
    using data_generation_step[of g to_cat] a by simp
next
  assume a: "batch_size g \<le> int (length (crop_stack_y g))"
  have b: "0 < batch_size g" and lx: "length (trials (crop_stack_X g)) = length (crop_stack_y g)"
    using ok by (simp_all add: gen_ok_def)
  show "data_generation to_cat g =
              (case to_cat (take (nat (batch_size g)) (crop_stack_y g)) (n_classes g) of
                 Inl x \<Rightarrow> Inl x
               | Inr cy \<Rightarrow>
                   Inr ((add_newaxis ((crop_stack_X g)\<lparr>trials :=
                            take (nat (batch_size g)) (trials (crop_stack_X g))\<rparr>), cy),
                        after_pop g))"
    by (rule data_generation_full[OF b a lx])
  show "length (take (nat (batch_size g)) (crop_stack_y g)) = nat (batch_size g)"
    using a by simp
  show "length (take (nat (batch_size g)) (trials (crop_stack_X g))) = nat (batch_size g)"
    using a lx by simp
qed

theorem batch_request_semantics_witness:
  "unpack_trial example_gen = Inr (after_unpack example_gen)
   \<and> crop_stack_y (after_unpack example_gen) = [0, 0, 1, 1]
   \<and> trials (crop_stack_X (after_unpack example_gen)) = [[[1]], [[2]], [[3]], [[4]]]
   \<and> data_generation one_hot example_gen =
       Inr ((\<lparr>axis1 = 1, chans4 = 1, samps4 = 1, items = [[[[1]]], [[[2]]], [[[3]]]]\<rparr>,
             [[1, 0], [1, 0], [0, 1]]),
            after_pop (after_unpack example_gen))"
proof -
  have q: "int (length (crop_stack_y example_gen)) < batch_size example_gen
           \<and> next_to_unpack example_gen < n_trials example_gen"
    by (simp add: example_gen_def)
  from batch_request_semantics[OF example_ok, of one_hot] q have
    u: "unpack_trial example_gen = Inr (after_unpack example_gen)"
    and ok: "gen_ok (after_unpack example_gen)"
    and s: "data_generation one_hot example_gen = data_generation one_hot (after_unpack example_gen)"
    by blast+
  have y: "crop_stack_y (after_unpack example_gen) = [0, 0, 1, 1]"
    and x: "trials (crop_stack_X (after_unpack example_gen)) = [[[1]], [[2]], [[3]], [[4]]]"
    and f: "batch_size (after_unpack example_gen) = 3" "n_classes (after_unpack example_gen) = 2"
      "crop_stack_X (after_unpack example_gen) =
         \<lparr>chans = 1, samps = 1, trials = [[[1]], [[2]], [[3]], [[4]]]\<rparr>"
    by (simp_all add: after_unpack_def example_gen_def trial_labels_def trial_crops_def
        windows_def window_def eval_nat_numeral)
  have full: "batch_size (after_unpack example_gen)
              \<le> int (length (crop_stack_y (after_unpack example_gen)))"
    by (simp add: y f)
  from batch_request_semantics[OF ok, of one_hot] full have
    "data_generation one_hot (after_unpack example_gen) =
       (case one_hot (take (nat (batch_size (after_unpack example_gen)))
                        (crop_stack_y (after_unpack example_gen)))
               (n_classes (after_unpack example_gen)) of
          Inl x \<Rightarrow> Inl x
        | Inr cy \<Rightarrow>
            Inr ((add_newaxis ((crop_stack_X (after_unpack example_gen))\<lparr>trials :=
                     take (nat (batch_size (after_unpack example_gen)))
                       (trials (crop_stack_X (after_unpack example_gen)))\<rparr>), cy),
                 after_pop (after_unpack example_gen)))"
    by blast
  then have "data_generation one_hot (after_unpack example_gen) =
       Inr ((\<lparr>axis1 = 1, chans4 = 1, samps4 = 1, items = [[[[1]]], [[[2]]], [[[3]]]]\<rparr>,
             [[1, 0], [1, 0], [0, 1]]),
            after_pop (after_unpack example_gen))"
    by (simp add: y f one_hot_def add_newaxis_def eval_nat_numeral)
  then show ?thesis using u y x s by simp
qed

text \<open>
  The claim as stated fails at the first request of a second epoch. The first epoch of
  the example has one batch and leaves the crop \<open>[[4]]\<close> with label 1 in the stack. After
  \<open>on_epoch_end\<close> the unpack does not append to it: the stack becomes the two crops of
  trial 0, and the batch returned is again \<open>[[1]], [[2]], [[3]]\<close>.
\<close>

theorem unpack_after_reset_counterexample:
  "getitem one_hot example_gen 0 =
     Inr ((\<lparr>axis1 = 1, chans4 = 1, samps4 = 1, items = [[[[1]]], [[[2]]], [[[3]]]]\<rparr>,
           [[1, 0], [1, 0], [0, 1]]),
          example_gen\<lparr>current_batch := Some 0, next_to_unpack := 2,
            crop_stack_X := \<lparr>chans = 1, samps = 1, trials = [[[4]]]\<rparr>, crop_stack_y := [1]\<rparr>)
   \<and> unpack_trial
       (on_epoch_end (\<lambda>xs. xs)
          (example_gen\<lparr>current_batch := Some 0, next_to_unpack := 2,
             crop_stack_X := \<lparr>chans = 1, samps = 1, trials = [[[4]]]\<rparr>, crop_stack_y := [1]\<rparr>)) =
     Inr (example_gen\<lparr>current_batch := Some 0, next_to_unpack := 1,
            crop_stack_X := \<lparr>chans = 1, samps = 1, trials = [[[1]], [[2]]]\<rparr>,
            crop_stack_y := [0, 0]\<rparr>)
   \<and> getitem one_hot
       (on_epoch_end (\<lambda>xs. xs)
          (example_gen\<lparr>current_batch := Some 0, next_to_unpack := 2,
             crop_stack_X := \<lparr>chans = 1, samps = 1, trials = [[[4]]]\<rparr>, crop_stack_y := [1]\<rparr>)) 0 =
     Inr ((\<lparr>axis1 = 1, chans4 = 1, samps4 = 1, items = [[[[1]]], [[[2]]], [[[3]]]]\<rparr>,
           [[1, 0], [1, 0], [0, 1]]),
          example_gen\<lparr>current_batch := Some 0, next_to_unpack := 2,
            crop_stack_X := \<lparr>chans = 1, samps = 1, trials = [[[4]]]\<rparr>, crop_stack_y := [1]\<rparr>)"
  by (simp add: example_gen_def eval_defs)

section \<open>Requests succeed\<close>

text \<open>
  Construction on well-formed data with a valid geometry returns a generator in good
  order, and with an encoder that accepts its input every request of an epoch of at most
  \<open>floor(n_crops / batch_size)\<close> batches returns: the pointer never runs past the index
  order.
\<close>

lemma init_ok:
  fixes X :: "('a::zero) arr3"
  assumes wf: "wf3 X" and ly: "length ys = length (trials X)" and d: "0 < length (trials X)"
    and W: "0 < W" "W \<le> int (samps X)" and S: "0 < S" and b: "0 < bs"
    and r: "shuf \<longrightarrow> length (rnd [0..<length (trials X)]) = length (trials X)
                 \<and> (\<forall>t \<in> set (rnd [0..<length (trials X)]). t < length (trials X))"
  shows "\<exists>g0. EEGDataGenerator_init rnd X ys bs ncls W S shuf = Inr g0 \<and> gen_ok g0"
proof -
  let ?cpt = "int (crops_of (samps X) W S)"
  let ?pre = "\<lparr>gen_X = X, gen_y = ys, batch_size = bs,
           n_trials = length (trials X), n_channels = chans X, n_samples = samps X,
           n_classes = (case ncls of
                          None \<Rightarrow> int (length (np_unique ys)) | Some k \<Rightarrow> k),
           crop_sample_size = W, crop_step = S,
           n_crops_for_trial = ?cpt, n_crops = ?cpt * int (length (trials X)),
           shuffle = shuf, current_batch = None,
           indexes = [], next_to_unpack = 0,
           crop_stack_X = \<lparr>chans = 0, samps = 0, trials = []\<rparr>, crop_stack_y = []\<rparr>"
  have n: "n_crops_of (samps X) W S = Inr ?cpt"
    using n_crops_valid(1)[OF W S] by (simp add: crops_of_def)
  have ok: "gen_ok (on_epoch_end rnd ?pre)"
    using wf ly W S b r by (auto simp: gen_ok_def on_epoch_end_def)
  have c: "next_to_unpack (on_epoch_end rnd ?pre) < n_trials (on_epoch_end rnd ?pre)"
    using d by (simp add: on_epoch_end_def)
  have "EEGDataGenerator_init rnd X ys bs ncls W S shuf = unpack_trial (on_epoch_end rnd ?pre)"
    by (simp add: EEGDataGenerator_init_def n)
  then have "EEGDataGenerator_init rnd X ys bs ncls W S shuf
             = Inr (after_unpack (on_epoch_end rnd ?pre))"
    using unpack_trial_ok[OF ok c] by simp
  then show ?thesis using gen_ok_after_unpack[OF ok] by blast
qed

lemma gen_ok_current_batch: "gen_ok (g\<lparr>current_batch := x\<rparr>) = gen_ok g"
  by (simp add: gen_ok_def)

lemma conserved_current_batch: "conserved (g\<lparr>current_batch := x\<rparr>) e = conserved g e"
  by (simp add: conserved_def)

lemma getitem_progress:
  assumes tc: "\<forall>ls. \<exists>cy. to_cat ls (n_classes g) = Inr cy"
    and ok: "gen_ok g" and c: "next_to_unpack g \<noteq> 0" and cons: "conserved g e"
    and room: "(int e + 1) * batch_size g \<le> n_crops g"
  shows "\<exists>r g'. getitem to_cat g i = Inr (r, g')"
  unfolding getitem_def
  by (rule data_generation_progress[where to_cat = to_cat and ncl = "n_classes g" and e = e])
     (use tc ok c cons room in \<open>simp_all add: gen_ok_current_batch conserved_current_batch\<close>)

lemma getitem_progress_new_epoch:
  assumes tc: "\<forall>ls. \<exists>cy. to_cat ls (n_classes g) = Inr cy"
    and ok: "gen_ok g" and q: "int (length (crop_stack_y g)) < batch_size g"
    and room: "batch_size g \<le> n_crops g"
    and r: "length (rnd [0..<n_trials g]) = n_trials g"
           "\<forall>t \<in> set (rnd [0..<n_trials g]). t < n_trials g"
  shows "\<exists>r g'. getitem to_cat (on_epoch_end rnd g) i = Inr (r, g')"
proof -
  let ?g = "(on_epoch_end rnd g)\<lparr>current_batch := Some i\<rparr>"
  have ok': "gen_ok ?g" using ok r by (auto simp: gen_ok_def on_epoch_end_def)
  have b: "0 < batch_size g" using ok by (simp add: gen_ok_def)
  have tot: "n_crops g = n_crops_for_trial g * int (n_trials g)"
    using ok by (simp add: gen_ok_def)
  have "0 < n_trials g"
  proof (rule ccontr)
    assume "\<not> 0 < n_trials g"
    then have "n_crops g = 0" using tot by simp
    then show False using room b by simp
  qed
  then have c: "next_to_unpack ?g < n_trials ?g" by (simp add: on_epoch_end_def)
  have q': "int (length (crop_stack_y ?g)) < batch_size ?g"
    using q by (simp add: on_epoch_end_def)
  have u: "unpack_trial ?g = Inr (after_unpack ?g)" by (rule unpack_trial_ok[OF ok' c])
  have st: "data_generation to_cat ?g = data_generation to_cat (after_unpack ?g)"
    using data_generation_step[OF q', of to_cat] u by simp
  have cpt: "0 < n_crops_for_trial ?g" by (rule gen_ok_cpt_pos[OF ok'])
  have cons: "conserved (after_unpack ?g) 0"
    using cpt
    by (simp add: conserved_def after_unpack_def on_epoch_end_def length_trial_crops
        length_trial_labels)
  have tc': "\<forall>ls. \<exists>cy. to_cat ls (n_classes g) = Inr cy" by (rule tc)
  have "\<exists>r g'. data_generation to_cat (after_unpack ?g) = Inr (r, g')"
    apply (rule data_generation_progress[where to_cat = to_cat and ncl = "n_classes g" and e = 0])
    using tc' gen_ok_after_unpack[OF ok'] cons room
    by (simp_all add: after_unpack_fields on_epoch_end_def)
  then show ?thesis using st by (simp add: getitem_def)
qed

end
